theory Spec2Isabelle
  imports Main
begin

section \<open>JavaScript strings\<close>

text \<open>
  The plugin \<^verbatim>\<open>vite-plugin-js-inline\<close> works on JavaScript strings, which are sequences
  of UTF-16 code units. A code unit is modelled as a natural number (so every statement
  proved for all lists covers every JavaScript string), and an ASCII literal of the
  source is written \<open>js ''...''\<close>.
\<close>

type_synonym jsstring = "nat list"

abbreviation js :: "string \<Rightarrow> jsstring" where
  "js s \<equiv> map of_char s"

text \<open>\<^verbatim>\<open>s.startsWith(p)\<close>, \<^verbatim>\<open>s.endsWith(p)\<close>, \<^verbatim>\<open>s.includes(p)\<close> and \<^verbatim>\<open>s.indexOf(p)\<close>.\<close>

definition startsWith :: "jsstring \<Rightarrow> jsstring \<Rightarrow> bool" where
  "startsWith s p = (take (length p) s = p)"

definition endsWith :: "jsstring \<Rightarrow> jsstring \<Rightarrow> bool" where
  "endsWith s p = (length p \<le> length s \<and> drop (length s - length p) s = p)"

fun indexOfFrom :: "jsstring \<Rightarrow> jsstring \<Rightarrow> nat \<Rightarrow> nat option" where
  "indexOfFrom [] p i = (if p = [] then Some i else None)"
| "indexOfFrom (x # t) p i =
     (if startsWith (x # t) p then Some i else indexOfFrom t p (Suc i))"

definition indexOf :: "jsstring \<Rightarrow> jsstring \<Rightarrow> nat option" where
  "indexOf s p = indexOfFrom s p 0"

definition includesStr :: "jsstring \<Rightarrow> jsstring \<Rightarrow> bool" where
  "includesStr s p = (indexOf s p \<noteq> None)"

text \<open>
  \<^verbatim>\<open>GetSubstitution\<close> of ECMAScript for a call \<^verbatim>\<open>s.replace(pattern, replacement)\<close> whose
  pattern is a string: there are no capture groups, so in the replacement text only
  \<^verbatim>\<open>$$\<close>, \<^verbatim>\<open>$&\<close>, \<^verbatim>\<open>$`\<close> and \<^verbatim>\<open>$'\<close> are special; every other \<^verbatim>\<open>$\<close> stands for itself.
\<close>

fun getSubstitution :: "jsstring \<Rightarrow> jsstring \<Rightarrow> jsstring \<Rightarrow> jsstring \<Rightarrow> jsstring" where
  "getSubstitution matched pre post [] = []"
| "getSubstitution matched pre post [c] = [c]"
| "getSubstitution matched pre post (c # d # r) =
     (if c \<noteq> of_char CHR ''$'' then c # getSubstitution matched pre post (d # r)
      else if d = of_char CHR ''$'' then c # getSubstitution matched pre post r
      else if d = of_char CHR ''&'' then matched @ getSubstitution matched pre post r
      else if d = of_char CHR ''`'' then pre @ getSubstitution matched pre post r
      else if d = of_char (CHR 0x27) then post @ getSubstitution matched pre post r
      else c # getSubstitution matched pre post (d # r))"

text \<open>\<^verbatim>\<open>s.replace(p, r)\<close> with a string \<open>p\<close>: only the first occurrence of \<open>p\<close> is replaced.\<close>

definition replace :: "jsstring \<Rightarrow> jsstring \<Rightarrow> jsstring \<Rightarrow> jsstring" where
  "replace s p r =
     (case indexOf s p of
        None \<Rightarrow> s
      | Some i \<Rightarrow>
          (let pre = take i s; post = drop (i + length p) s
           in pre @ getSubstitution p pre post r @ post))"

text \<open>\<^verbatim>\<open>srcPath.replace(/^\.\//, "")\<close>: one leading \<^verbatim>\<open>./\<close> is removed.\<close>

definition stripDotSlash :: "jsstring \<Rightarrow> jsstring" where
  "stripDotSlash s = (if startsWith s (js ''./'') then drop 2 s else s)"

section \<open>Regular expressions\<close>

text \<open>
  The fragment of JavaScript regular expressions that the default \<^verbatim>\<open>scriptTagPattern\<close>
  is written in: a sequence of literal texts, single characters of a class and greedy
  repetitions of a class, the latter possibly a capturing group. Matching backtracks as
  the JavaScript engine does: a greedy repetition first takes as many characters as it
  can and gives them back one at a time.
\<close>

datatype cls = Space | OneOf jsstring | NoneOf jsstring

text \<open>\<^verbatim>\<open>\s\<close> is the white space and line terminators of ECMAScript.\<close>

definition isSpace :: "nat \<Rightarrow> bool" where
  "isSpace c = (c \<in> {9, 10, 11, 12, 13, 32, 160, 5760, 8232, 8233, 8239, 8287, 12288, 65279}
                \<or> (8192 \<le> c \<and> c \<le> 8202))"

fun inCls :: "cls \<Rightarrow> nat \<Rightarrow> bool" where
  "inCls Space c = isSpace c"
| "inCls (OneOf cs) c = (c \<in> set cs)"
| "inCls (NoneOf cs) c = (c \<notin> set cs)"

datatype item =
    Chars jsstring        \<comment> \<open>a literal text\<close>
  | Single cls            \<comment> \<open>one character of a class\<close>
  | Many cls nat bool     \<comment> \<open>greedy repetition, at least so many times; capturing or not\<close>

fun firstSome :: "('a \<Rightarrow> 'b option) \<Rightarrow> 'a list \<Rightarrow> 'b option" where
  "firstSome f [] = None"
| "firstSome f (x # xs) = (case f x of Some y \<Rightarrow> Some y | None \<Rightarrow> firstSome f xs)"

text \<open>
  \<open>matchHere p s\<close> matches the pattern at the start of \<open>s\<close> and gives the length of the
  match and the text of the first capturing group.
\<close>

fun matchHere :: "item list \<Rightarrow> jsstring \<Rightarrow> (nat \<times> jsstring option) option" where
  "matchHere [] s = Some (0, None)"
| "matchHere (Chars t # p) s =
     (if startsWith s t
      then (case matchHere p (drop (length t) s) of
              None \<Rightarrow> None
            | Some (n, g) \<Rightarrow> Some (length t + n, g))
      else None)"
| "matchHere (Single c # p) s =
     (case s of
        [] \<Rightarrow> None
      | x # t \<Rightarrow>
          (if inCls c x
           then (case matchHere p t of None \<Rightarrow> None | Some (n, g) \<Rightarrow> Some (Suc n, g))
           else None))"
| "matchHere (Many c lo cap # p) s =
     firstSome
       (\<lambda>k. case matchHere p (drop k s) of
               None \<Rightarrow> None
             | Some (n, g) \<Rightarrow> Some (k + n, if cap then Some (take k s) else g))
       (rev [lo ..< Suc (length (takeWhile (inCls c) s))])"

text \<open>The leftmost match in \<open>s\<close>, where \<open>s\<close> starts at index \<open>i\<close> of the whole text.\<close>

fun search :: "item list \<Rightarrow> jsstring \<Rightarrow> nat \<Rightarrow> (nat \<times> nat \<times> jsstring option) option" where
  "search p [] i = (case matchHere p [] of None \<Rightarrow> None | Some (n, g) \<Rightarrow> Some (i, n, g))"
| "search p (x # t) i =
     (case matchHere p (x # t) of
        None \<Rightarrow> search p t (Suc i)
      | Some (n, g) \<Rightarrow> Some (i, n, g))"

record regexp =
  items :: "item list"
  global :: bool

text \<open>
  \<^verbatim>\<open>re.exec(s)\<close> with the \<^verbatim>\<open>lastIndex\<close> of the regular expression passed in and out: the
  result is the match (the full matched text and the first group) and the new
  \<^verbatim>\<open>lastIndex\<close>. A global expression starts at \<^verbatim>\<open>lastIndex\<close>, fails when that is beyond the
  end of the text, moves \<^verbatim>\<open>lastIndex\<close> to the end of the match and resets it to 0 on
  failure; any other expression starts at 0 and leaves \<^verbatim>\<open>lastIndex\<close> alone.
\<close>

definition exec :: "regexp \<Rightarrow> jsstring \<Rightarrow> nat \<Rightarrow> (jsstring \<times> jsstring option) option \<times> nat" where
  "exec re s lastIndex =
     (if global re then
        (if length s < lastIndex then (None, 0)
         else (case search (items re) (drop lastIndex s) lastIndex of
                 None \<Rightarrow> (None, 0)
               | Some (i, n, g) \<Rightarrow> (Some (take n (drop i s), g), i + n)))
      else
        (case search (items re) s 0 of
           None \<Rightarrow> (None, lastIndex)
         | Some (i, n, g) \<Rightarrow> (Some (take n (drop i s), g), lastIndex)))"

text \<open>
  The default of the option \<^verbatim>\<open>scriptTagPattern\<close>:
  \<^verbatim>\<open>/<script\s+[^>]*src=["']([^"']+)["'][^>]*>\s*<\/script>/g\<close>
\<close>

definition quotes :: jsstring where
  "quotes = [of_char CHR 0x22, of_char CHR 0x27]"

definition defaultScriptTagPattern :: regexp where
  "defaultScriptTagPattern =
     \<lparr> items =
         [ Chars (js ''<script''),
           Many Space 1 False,
           Many (NoneOf (js ''>'')) 0 False,
           Chars (js ''src=''),
           Single (OneOf quotes),
           Many (NoneOf quotes) 1 True,
           Single (OneOf quotes),
           Many (NoneOf (js ''>'')) 0 False,
           Chars (js ''>''),
           Many Space 0 False,
           Chars (js ''</script>'') ],
       global = True \<rparr>"

section \<open>The host: file system, paths, console, minifier\<close>

type_synonym path = jsstring

text \<open>
  The file system as the plugin sees it through \<^verbatim>\<open>fs\<close>: a path is absent, a file with its
  text, or a directory with the names of its entries; a write to a path may be refused.
\<close>

datatype node = FileNode jsstring | DirNode "jsstring list"

record filesys =
  node_at :: "path \<Rightarrow> node option"
  writable :: "path \<Rightarrow> bool"

definition existsSync :: "filesys \<Rightarrow> path \<Rightarrow> bool" where
  "existsSync fs p = (node_at fs p \<noteq> None)"

text \<open>\<^verbatim>\<open>fs.readFileSync(p, "utf-8")\<close>; \<open>None\<close> when it throws (no such file, or a directory).\<close>

definition readFileSync :: "filesys \<Rightarrow> path \<Rightarrow> jsstring option" where
  "readFileSync fs p = (case node_at fs p of Some (FileNode t) \<Rightarrow> Some t | _ \<Rightarrow> None)"

text \<open>\<^verbatim>\<open>fs.readdirSync(p)\<close>; \<open>None\<close> when it throws (no such directory, or a file).\<close>

definition readdirSync :: "filesys \<Rightarrow> path \<Rightarrow> jsstring list option" where
  "readdirSync fs p = (case node_at fs p of Some (DirNode es) \<Rightarrow> Some es | _ \<Rightarrow> None)"

text \<open>\<^verbatim>\<open>fs.writeFileSync(p, t, "utf-8")\<close>; \<open>None\<close> when it throws.\<close>

definition writeFileSync :: "filesys \<Rightarrow> path \<Rightarrow> jsstring \<Rightarrow> filesys option" where
  "writeFileSync fs p t =
     (if writable fs p then Some (fs\<lparr>node_at := (node_at fs)(p \<mapsto> FileNode t)\<rparr>) else None)"

text \<open>What \<^verbatim>\<open>terserModule.minify\<close> resolves to, or that it rejects.\<close>

datatype minifyResult = MinifyThrows | MinifyError jsstring | MinifyCode jsstring

record compressOptions =
  passes :: nat
  drop_console :: bool
  drop_debugger :: bool

record outputOptions =
  comments :: bool

record terserOptions =
  compress :: compressOptions
  mangle :: bool
  output_ :: outputOptions

type_synonym terser = "jsstring \<Rightarrow> terserOptions \<Rightarrow> minifyResult"

text \<open>
  The functions of Node that the plugin calls and does not define: \<^verbatim>\<open>process.cwd()\<close>, the
  \<^verbatim>\<open>path\<close> module, and the dynamic \<^verbatim>\<open>import("terser")\<close> (\<open>None\<close> when it rejects).
\<close>

record host =
  cwd :: path
  path_resolve :: "path list \<Rightarrow> path"
  path_dirname :: "path \<Rightarrow> path"
  path_join :: "path \<Rightarrow> jsstring \<Rightarrow> path"
  path_relative :: "path \<Rightarrow> path \<Rightarrow> path"
  import_terser :: "terser option"

text \<open>
  Everything the plugin does to the outside, in order: each \<^verbatim>\<open>console\<close> call of the source
  is one constructor (with the values interpolated into its message), and so are the
  import of the minifier and a call of \<^verbatim>\<open>fs.writeFileSync\<close>.
\<close>

datatype event =
    LogLooking                      \<comment> \<open>log: Looking for HTML files in dist directory...\<close>
  | ImportTerser                    \<comment> \<open>\<^verbatim>\<open>await import("terser")\<close>\<close>
  | LogTerserAvailable              \<comment> \<open>log: Minification is enabled and terser is available\<close>
  | WarnTerserMissing               \<comment> \<open>warn: Terser is not installed but minify=true. ...\<close>
  | WarnContinuing                  \<comment> \<open>warn: Continuing without minification\<close>
  | WarnDistMissing path            \<comment> \<open>warn: Dist directory not found at: ...\<close>
  | LogFound nat                    \<comment> \<open>log: Found n HTML files in dist directory\<close>
  | LogProcessing path              \<comment> \<open>log: Processing HTML file: ...\<close>
  | LogMinifying jsstring           \<comment> \<open>log: Minifying srcPath...\<close>
  | WarnMinificationError jsstring jsstring  \<comment> \<open>warn: Minification error for srcPath: error\<close>
  | LogMinified jsstring jsstring jsstring   \<comment> \<open>log: Minified srcPath, the text before and the text after (their lengths are printed)\<close>
  | WarnErrorMinifying jsstring     \<comment> \<open>warn: Error minifying srcPath:\<close>
  | LogInlined jsstring             \<comment> \<open>log: Inlined JavaScript file: srcPath\<close>
  | WarnCouldNotFind jsstring       \<comment> \<open>warn: Could not find JavaScript file to inline: srcPath\<close>
  | WarnAttemptedPaths              \<comment> \<open>warn: Attempted paths:\<close>
  | WarnAttempt nat path            \<comment> \<open>warn: n. path\<close>
  | ErrorInlining jsstring          \<comment> \<open>error: Error inlining JavaScript file srcPath:\<close>
  | WriteFile path jsstring         \<comment> \<open>\<^verbatim>\<open>fs.writeFileSync(htmlFile, htmlContent, "utf-8")\<close>\<close>
  | LogUpdated path                 \<comment> \<open>log: Updated HTML file with inlined scripts: ...\<close>
  | LogNoScripts path               \<comment> \<open>log: No scripts to inline in: ...\<close>
  | ErrorProcessing path            \<comment> \<open>error: Error processing HTML file ...:\<close>
  | LogCompleted                    \<comment> \<open>log: Plugin completed successfully\<close>

text \<open>The events that are calls of \<^verbatim>\<open>console.warn\<close>.\<close>

definition isWarn :: "event \<Rightarrow> bool" where
  "isWarn e =
     (case e of
        WarnTerserMissing \<Rightarrow> True
      | WarnContinuing \<Rightarrow> True
      | WarnDistMissing _ \<Rightarrow> True
      | WarnMinificationError _ _ \<Rightarrow> True
      | WarnErrorMinifying _ \<Rightarrow> True
      | WarnCouldNotFind _ \<Rightarrow> True
      | WarnAttemptedPaths \<Rightarrow> True
      | WarnAttempt _ _ \<Rightarrow> True
      | _ \<Rightarrow> False)"

section \<open>The plugin\<close>

text \<open>
  The options of \<^verbatim>\<open>viteJsInline\<close>. \<^verbatim>\<open>transformContent\<close> is a function of the user: it gives
  \<open>None\<close> when it throws.
\<close>

record options =
  minify :: bool
  scriptTagPattern :: regexp
  transformContent :: "jsstring \<Rightarrow> jsstring \<Rightarrow> jsstring option"
  sourceDirs :: "path list"
  inlineAll :: bool

definition defaultOptions :: options where
  "defaultOptions =
     \<lparr> minify = False,
       scriptTagPattern = defaultScriptTagPattern,
       transformContent = (\<lambda>content srcPath. Some content),
       sourceDirs = [js ''src'', js ''public''],
       inlineAll = False \<rparr>"

text \<open>
  A computation returns, throws (with the state it had reached), or is cut off by the
  bound on the number of its steps.
\<close>

datatype 'a outcome = Returned 'a | Thrown 'a | OutOfFuel

text \<open>
  \<^verbatim>\<open>findHtmlFiles(dir, fileList)\<close>. The bound is on the depth of the recursion; an entry
  that \<^verbatim>\<open>fs.statSync\<close> does not find makes it throw.
\<close>

fun findHtmlFiles :: "nat \<Rightarrow> host \<Rightarrow> filesys \<Rightarrow> path \<Rightarrow> path list \<Rightarrow> path list outcome"
  and findInFiles :: "nat \<Rightarrow> host \<Rightarrow> filesys \<Rightarrow> path \<Rightarrow> jsstring list \<Rightarrow> path list \<Rightarrow> path list outcome"
where
  "findHtmlFiles 0 h fs dir fileList = OutOfFuel"
| "findHtmlFiles (Suc n) h fs dir fileList =
     (case readdirSync fs dir of
        None \<Rightarrow> Thrown fileList
      | Some files \<Rightarrow> findInFiles n h fs dir files fileList)"
| "findInFiles n h fs dir [] fileList = Returned fileList"
| "findInFiles n h fs dir (file # files) fileList =
     (let filePath = path_join h dir file in
      case node_at fs filePath of
        None \<Rightarrow> Thrown fileList
      | Some (DirNode _) \<Rightarrow>
          (case findHtmlFiles n h fs filePath fileList of
             Returned fileList' \<Rightarrow> findInFiles n h fs dir files fileList'
           | other \<Rightarrow> other)
      | Some (FileNode _) \<Rightarrow>
          (if endsWith file (js ''.html'')
           then findInFiles n h fs dir files (fileList @ [filePath])
           else findInFiles n h fs dir files fileList))"

text \<open>
  The search for the file of a script (the first part of the \<^verbatim>\<open>try\<close> block in
  \<^verbatim>\<open>closeBundle\<close>). The result is the values of \<^verbatim>\<open>jsFilePath\<close> and \<^verbatim>\<open>fileExists\<close> after
  the search, and the paths that \<^verbatim>\<open>fs.existsSync\<close> was asked about, in order.
\<close>

type_synonym resolution = "path \<times> bool \<times> path list"

fun trySourceDirs :: "host \<Rightarrow> filesys \<Rightarrow> jsstring \<Rightarrow> path list \<Rightarrow> resolution \<Rightarrow> resolution" where
  "trySourceDirs h fs srcPath [] r = r"
| "trySourceDirs h fs srcPath (dir # dirs) (jsFilePath, fileExists, asked) =
     (let attemptPath = path_resolve h [cwd h, dir, stripDotSlash srcPath] in
      if existsSync fs attemptPath then (attemptPath, True, asked @ [attemptPath])
      else trySourceDirs h fs srcPath dirs (jsFilePath, fileExists, asked @ [attemptPath]))"

definition resolveSource ::
  "host \<Rightarrow> options \<Rightarrow> filesys \<Rightarrow> path \<Rightarrow> path \<Rightarrow> jsstring \<Rightarrow> resolution" where
  "resolveSource h opts fs htmlFile distDir srcPath =
     (let p1 = path_resolve h [path_dirname h htmlFile, srcPath];
          r1 = (p1, existsSync fs p1, [p1]);
          r2 = (case r1 of (jsFilePath, fileExists, asked) \<Rightarrow>
                  if \<not> fileExists
                  then (let p2 = path_resolve h [distDir, srcPath]
                        in (p2, existsSync fs p2, asked @ [p2]))
                  else r1);
          r3 = (case r2 of (jsFilePath, fileExists, asked) \<Rightarrow>
                  if \<not> fileExists
                  then (let p3 = path_resolve h [cwd h, srcPath]
                        in (p3, existsSync fs p3, asked @ [p3]))
                  else r2)
      in (case r3 of (jsFilePath, fileExists, asked) \<Rightarrow>
            if \<not> fileExists then trySourceDirs h fs srcPath (sourceDirs opts) r3 else r3))"

text \<open>The options that \<^verbatim>\<open>terserModule.minify\<close> is called with.\<close>

definition minifyOptions :: terserOptions where
  "minifyOptions =
     \<lparr> compress = \<lparr> passes = 2, drop_console = False, drop_debugger = True \<rparr>,
       mangle = True,
       output_ = \<lparr> comments = False \<rparr> \<rparr>"

text \<open>
  The minification of one script: the text to inline and the console calls made. When
  the minifier reports an error or throws, the text stays as it was.
\<close>

definition minifyContent :: "terser \<Rightarrow> jsstring \<Rightarrow> jsstring \<Rightarrow> jsstring \<times> event list" where
  "minifyContent t srcPath jsContent =
     (case t jsContent minifyOptions of
        MinifyThrows \<Rightarrow> (jsContent, [LogMinifying srcPath, WarnErrorMinifying srcPath])
      | MinifyError e \<Rightarrow> (jsContent, [LogMinifying srcPath, WarnMinificationError srcPath e])
      | MinifyCode code \<Rightarrow> (code, [LogMinifying srcPath, LogMinified srcPath jsContent code]))"

text \<open>The block \<^verbatim>\<open>if (minify && terserModule) { ... }\<close>.\<close>

definition minifyIfEnabled ::
  "options \<Rightarrow> terser option \<Rightarrow> jsstring \<Rightarrow> jsstring \<Rightarrow> jsstring \<times> event list" where
  "minifyIfEnabled opts terserModule srcPath jsContent =
     (case (minify opts, terserModule) of
        (True, Some t) \<Rightarrow> minifyContent t srcPath jsContent
      | _ \<Rightarrow> (jsContent, []))"

definition inlineScriptTag :: "jsstring \<Rightarrow> jsstring" where
  "inlineScriptTag jsContent = js ''<script>\<newline>'' @ jsContent @ js ''</script>''"

text \<open>The warnings of the branch in which the file was found nowhere.\<close>

definition attemptedPaths :: "host \<Rightarrow> options \<Rightarrow> path \<Rightarrow> path \<Rightarrow> jsstring \<Rightarrow> event list" where
  "attemptedPaths h opts htmlFile distDir srcPath =
     [ WarnCouldNotFind srcPath,
       WarnAttemptedPaths,
       WarnAttempt 1 (path_resolve h [path_dirname h htmlFile, srcPath]),
       WarnAttempt 2 (path_resolve h [distDir, srcPath]),
       WarnAttempt 3 (path_resolve h [cwd h, srcPath]) ]
     @ map (\<lambda>(index, dir). WarnAttempt (index + 4) (path_resolve h [cwd h, dir, stripDotSlash srcPath]))
         (enumerate 0 (sourceDirs opts))"

text \<open>The variables of the loop over the script tags of one HTML file, and the events so far.\<close>

record loopState =
  htmlContent :: jsstring
  modified :: bool
  lastIndex :: nat
  trace :: "event list"

text \<open>
  The \<^verbatim>\<open>try\<close> block of the loop for one script tag that is to be inlined; an exception in
  it (the file cannot be read, \<^verbatim>\<open>transformContent\<close> throws) is caught and logged.
\<close>

definition inlineScript ::
  "host \<Rightarrow> options \<Rightarrow> terser option \<Rightarrow> filesys \<Rightarrow> path \<Rightarrow> path \<Rightarrow> jsstring \<Rightarrow> jsstring \<Rightarrow> loopState \<Rightarrow> loopState" where
  "inlineScript h opts terserModule fs htmlFile distDir fullMatch srcPath st =
     (case resolveSource h opts fs htmlFile distDir srcPath of (jsFilePath, fileExists, asked) \<Rightarrow>
        if fileExists then
          (case readFileSync fs jsFilePath of
             None \<Rightarrow> st\<lparr>trace := trace st @ [ErrorInlining srcPath]\<rparr>
           | Some content \<Rightarrow>
               (case transformContent opts content srcPath of
                  None \<Rightarrow> st\<lparr>trace := trace st @ [ErrorInlining srcPath]\<rparr>
                | Some jsContent \<Rightarrow>
                    (case minifyIfEnabled opts terserModule srcPath jsContent of
                       (jsContent', minifyEvents) \<Rightarrow>
                         st\<lparr>htmlContent := replace (htmlContent st) fullMatch (inlineScriptTag jsContent'),
                            modified := True,
                            trace := trace st @ minifyEvents @ [LogInlined srcPath]\<rparr>)))
        else st\<lparr>trace := trace st @ attemptedPaths h opts htmlFile distDir srcPath\<rparr>)"

text \<open>The condition under which the loop leaves a match alone (\<^verbatim>\<open>continue\<close>).\<close>

definition skipped :: "options \<Rightarrow> jsstring \<Rightarrow> jsstring \<Rightarrow> bool" where
  "skipped opts fullMatch srcPath =
     (startsWith srcPath (js ''http'')
      \<or> (\<not> includesStr fullMatch (js ''inline'') \<and> \<not> inlineAll opts))"

text \<open>The body of the loop for one match.\<close>

definition handleMatch ::
  "host \<Rightarrow> options \<Rightarrow> terser option \<Rightarrow> filesys \<Rightarrow> path \<Rightarrow> path \<Rightarrow> jsstring \<Rightarrow> jsstring \<Rightarrow> loopState \<Rightarrow> loopState" where
  "handleMatch h opts terserModule fs htmlFile distDir fullMatch srcPath st =
     (if skipped opts fullMatch srcPath then st
      else inlineScript h opts terserModule fs htmlFile distDir fullMatch srcPath st)"

text \<open>
  The loop \<^verbatim>\<open>while ((match = scriptTagPattern.exec(htmlContent)) !== null)\<close>. Each turn
  matches against the current \<^verbatim>\<open>htmlContent\<close> from the \<^verbatim>\<open>lastIndex\<close> that the turn before
  left. A pattern without a group gives no \<^verbatim>\<open>srcPath\<close>, and \<^verbatim>\<open>srcPath.startsWith\<close> throws.
  The loop need not end, so the number of its turns is bounded.
\<close>

fun processScriptTags ::
  "nat \<Rightarrow> host \<Rightarrow> options \<Rightarrow> terser option \<Rightarrow> filesys \<Rightarrow> path \<Rightarrow> path \<Rightarrow> loopState \<Rightarrow> loopState outcome" where
  "processScriptTags 0 h opts terserModule fs htmlFile distDir st = OutOfFuel"
| "processScriptTags (Suc n) h opts terserModule fs htmlFile distDir st =
     (case exec (scriptTagPattern opts) (htmlContent st) (lastIndex st) of
        (None, li) \<Rightarrow> Returned (st\<lparr>lastIndex := li\<rparr>)
      | (Some (fullMatch, None), li) \<Rightarrow> Thrown (st\<lparr>lastIndex := li\<rparr>)
      | (Some (fullMatch, Some srcPath), li) \<Rightarrow>
          processScriptTags n h opts terserModule fs htmlFile distDir
            (handleMatch h opts terserModule fs htmlFile distDir fullMatch srcPath
               (st\<lparr>lastIndex := li\<rparr>)))"

text \<open>
  One turn of the loop \<^verbatim>\<open>for (const htmlFile of htmlFiles)\<close>: an exception in it is caught
  and logged, and the run goes on with the next file. \<open>None\<close>: the bound was reached.
\<close>

definition processFile ::
  "nat \<Rightarrow> host \<Rightarrow> options \<Rightarrow> terser option \<Rightarrow> path \<Rightarrow> path \<Rightarrow> filesys \<times> event list
     \<Rightarrow> (filesys \<times> event list) option" where
  "processFile n h opts terserModule distDir htmlFile s =
     (case s of (fs, tr) \<Rightarrow>
        (let tr1 = tr @ [LogProcessing (path_relative h distDir htmlFile)] in
         case readFileSync fs htmlFile of
           None \<Rightarrow> Some (fs, tr1 @ [ErrorProcessing htmlFile])
         | Some content \<Rightarrow>
             (case processScriptTags n h opts terserModule fs htmlFile distDir
                     \<lparr>htmlContent = content, modified = False, lastIndex = 0, trace = tr1\<rparr> of
                OutOfFuel \<Rightarrow> None
              | Thrown st \<Rightarrow> Some (fs, trace st @ [ErrorProcessing htmlFile])
              | Returned st \<Rightarrow>
                  (if modified st then
                     (case writeFileSync fs htmlFile (htmlContent st) of
                        None \<Rightarrow>
                          Some (fs, trace st @ [WriteFile htmlFile (htmlContent st),
                                                ErrorProcessing htmlFile])
                      | Some fs' \<Rightarrow>
                          Some (fs', trace st @ [WriteFile htmlFile (htmlContent st),
                                                 LogUpdated (path_relative h distDir htmlFile)]))
                   else Some (fs, trace st @ [LogNoScripts (path_relative h distDir htmlFile)])))))"

fun processFiles ::
  "nat \<Rightarrow> host \<Rightarrow> options \<Rightarrow> terser option \<Rightarrow> path \<Rightarrow> path list \<Rightarrow> filesys \<times> event list
     \<Rightarrow> (filesys \<times> event list) option" where
  "processFiles n h opts terserModule distDir [] s = Some s"
| "processFiles n h opts terserModule distDir (htmlFile # htmlFiles) s =
     (case processFile n h opts terserModule distDir htmlFile s of
        None \<Rightarrow> None
      | Some s' \<Rightarrow> processFiles n h opts terserModule distDir htmlFiles s')"

text \<open>
  The loading of the minifier at the start of \<^verbatim>\<open>closeBundle\<close>: the value of the variable
  \<^verbatim>\<open>terserModule\<close> (\<^verbatim>\<open>null\<close> before) and the events.
\<close>

definition loadTerser :: "host \<Rightarrow> options \<Rightarrow> terser option \<times> event list" where
  "loadTerser h opts =
     (if minify opts then
        (case import_terser h of
           Some t \<Rightarrow> (Some t, [ImportTerser, LogTerserAvailable])
         | None \<Rightarrow> (None, [ImportTerser, WarnTerserMissing, WarnContinuing]))
      else (None, []))"

text \<open>
  \<^verbatim>\<open>closeBundle()\<close>: the file system and the events of the run. An exception of
  \<^verbatim>\<open>findHtmlFiles\<close> is not caught.
\<close>

definition closeBundle :: "nat \<Rightarrow> host \<Rightarrow> options \<Rightarrow> filesys \<Rightarrow> (filesys \<times> event list) outcome" where
  "closeBundle n h opts fs =
     (case loadTerser h opts of (terserModule, loadEvents) \<Rightarrow>
        (let tr = LogLooking # loadEvents;
             distDir = path_resolve h [cwd h, js ''dist'']
         in if \<not> existsSync fs distDir then Returned (fs, tr @ [WarnDistMissing distDir])
            else
              (case findHtmlFiles n h fs distDir [] of
                 OutOfFuel \<Rightarrow> OutOfFuel
               | Thrown _ \<Rightarrow> Thrown (fs, tr)
               | Returned htmlFiles \<Rightarrow>
                   (case processFiles n h opts terserModule distDir htmlFiles
                           (fs, tr @ [LogFound (length htmlFiles)]) of
                      None \<Rightarrow> OutOfFuel
                    | Some (fs', tr') \<Rightarrow> Returned (fs', tr' @ [LogCompleted])))))"

section \<open>A host with POSIX paths\<close>

text \<open>
  The examples run on a host whose \<^verbatim>\<open>path\<close> functions follow Node on POSIX for absolute
  directories: \<^verbatim>\<open>path.resolve\<close> goes through its arguments from the right until one is
  absolute and normalises the result (empty and \<^verbatim>\<open>.\<close> segments go, \<^verbatim>\<open>..\<close> removes the
  segment before it).
\<close>

fun splitSlash :: "jsstring \<Rightarrow> jsstring list" where
  "splitSlash [] = [[]]"
| "splitSlash (c # s) =
     (if c = of_char CHR ''/'' then [] # splitSlash s
      else (case splitSlash s of [] \<Rightarrow> [[c]] | seg # segs \<Rightarrow> (c # seg) # segs))"

fun normalizeSegs :: "jsstring list \<Rightarrow> jsstring list \<Rightarrow> jsstring list" where
  "normalizeSegs [] acc = rev acc"
| "normalizeSegs (seg # segs) acc =
     (if seg = [] \<or> seg = js ''.'' then normalizeSegs segs acc
      else if seg = js ''..'' then normalizeSegs segs (tl acc)
      else normalizeSegs segs (seg # acc))"

definition normalizeAbs :: "path \<Rightarrow> path" where
  "normalizeAbs p =
     (case normalizeSegs (splitSlash p) [] of
        [] \<Rightarrow> js ''/''
      | segs \<Rightarrow> concat (map (\<lambda>seg. of_char CHR ''/'' # seg) segs))"

fun resolveFromRight :: "path list \<Rightarrow> path \<Rightarrow> path" where
  "resolveFromRight [] acc = acc"
| "resolveFromRight (p # ps) acc =
     (if p = [] then resolveFromRight ps acc
      else if hd p = of_char CHR ''/'' then p @ js ''/'' @ acc
      else resolveFromRight ps (p @ js ''/'' @ acc))"

definition posixResolve :: "path \<Rightarrow> path list \<Rightarrow> path" where
  "posixResolve wd args = normalizeAbs (resolveFromRight (rev (wd # args)) [])"

definition posixDirname :: "path \<Rightarrow> path" where
  "posixDirname p =
     (case butlast (normalizeSegs (splitSlash p) []) of
        [] \<Rightarrow> js ''/''
      | segs \<Rightarrow> concat (map (\<lambda>seg. of_char CHR ''/'' # seg) segs))"

definition posixJoin :: "path \<Rightarrow> jsstring \<Rightarrow> path" where
  "posixJoin dir file = normalizeAbs (dir @ js ''/'' @ file)"

text \<open>\<^verbatim>\<open>path.relative(from, to)\<close> for a path \<open>to\<close> below the directory \<open>from\<close>.\<close>

definition posixRelative :: "path \<Rightarrow> path \<Rightarrow> path" where
  "posixRelative from to = drop (Suc (length from)) to"

definition posixHost :: "path \<Rightarrow> terser option \<Rightarrow> host" where
  "posixHost wd t =
     \<lparr> cwd = wd,
       path_resolve = posixResolve wd,
       path_dirname = posixDirname,
       path_join = posixJoin,
       path_relative = posixRelative,
       import_terser = t \<rparr>"

section \<open>Notions used in the statements\<close>

text \<open>
  The ordered candidate locations of a script, in the words of the specification: the
  path against the directory of the document, against the output root, against the
  working directory, and for each extra source directory in listed order the path
  without a leading \<^verbatim>\<open>./\<close> against that directory.
\<close>

definition candidatePaths :: "host \<Rightarrow> options \<Rightarrow> path \<Rightarrow> path \<Rightarrow> jsstring \<Rightarrow> path list" where
  "candidatePaths h opts htmlFile distDir srcPath =
     [ path_resolve h [path_dirname h htmlFile, srcPath],
       path_resolve h [distDir, srcPath],
       path_resolve h [cwd h, srcPath] ]
     @ map (\<lambda>dir. path_resolve h [cwd h, dir, stripDotSlash srcPath]) (sourceDirs opts)"

definition isInlined :: "event \<Rightarrow> bool" where
  "isInlined e = (case e of LogInlined _ \<Rightarrow> True | _ \<Rightarrow> False)"

definition isWriteFile :: "event \<Rightarrow> bool" where
  "isWriteFile e = (case e of WriteFile _ _ \<Rightarrow> True | _ \<Rightarrow> False)"

text \<open>The events of the import and of the use of the minifier.\<close>

definition isMinifierEvent :: "event \<Rightarrow> bool" where
  "isMinifierEvent e =
     (case e of
        ImportTerser \<Rightarrow> True
      | LogTerserAvailable \<Rightarrow> True
      | WarnTerserMissing \<Rightarrow> True
      | WarnContinuing \<Rightarrow> True
      | LogMinifying _ \<Rightarrow> True
      | WarnMinificationError _ _ \<Rightarrow> True
      | LogMinified _ _ _ \<Rightarrow> True
      | WarnErrorMinifying _ \<Rightarrow> True
      | _ \<Rightarrow> False)"

definition eventsOf :: "(filesys \<times> event list) outcome \<Rightarrow> event list" where
  "eventsOf r = (case r of Returned (fs, tr) \<Rightarrow> tr | Thrown (fs, tr) \<Rightarrow> tr | OutOfFuel \<Rightarrow> [])"

text \<open>The text of a file after a run (\<open>None\<close>: no such file, or the run did not return).\<close>

definition textAfter :: "(filesys \<times> event list) outcome \<Rightarrow> path \<Rightarrow> jsstring option" where
  "textAfter r p = (case r of Returned (fs, tr) \<Rightarrow> readFileSync fs p | _ \<Rightarrow> None)"

text \<open>
  A match of the pattern somewhere in a text that the loop would not skip: the text has
  an eligible script reference.
\<close>

definition eligibleAt :: "options \<Rightarrow> jsstring \<Rightarrow> nat \<Rightarrow> bool" where
  "eligibleAt opts s k =
     (case matchHere (items (scriptTagPattern opts)) (drop k s) of
        Some (n, Some srcPath) \<Rightarrow> \<not> skipped opts (take n (drop k s)) srcPath
      | Some (n, None) \<Rightarrow> True
      | None \<Rightarrow> False)"

definition noEligible :: "options \<Rightarrow> jsstring \<Rightarrow> bool" where
  "noEligible opts s = list_all (\<lambda>k. \<not> eligibleAt opts s k) [0 ..< Suc (length s)]"

text \<open>
  The events that the loop over the script tags can produce; those of the minifier
  only when it is in use (\<open>b\<close>).
\<close>

definition scriptEvent :: "bool \<Rightarrow> event \<Rightarrow> bool" where
  "scriptEvent b e =
     (case e of
        LogMinifying _ \<Rightarrow> b
      | WarnMinificationError _ _ \<Rightarrow> b
      | LogMinified _ _ _ \<Rightarrow> b
      | WarnErrorMinifying _ \<Rightarrow> b
      | LogInlined _ \<Rightarrow> True
      | WarnCouldNotFind _ \<Rightarrow> True
      | WarnAttemptedPaths \<Rightarrow> True
      | WarnAttempt _ _ \<Rightarrow> True
      | ErrorInlining _ \<Rightarrow> True
      | _ \<Rightarrow> False)"

text \<open>The events that the processing of one HTML file can produce.\<close>

definition fileEvent :: "bool \<Rightarrow> event \<Rightarrow> bool" where
  "fileEvent b e =
     (scriptEvent b e \<or>
      (case e of
         LogProcessing _ \<Rightarrow> True
       | ErrorProcessing _ \<Rightarrow> True
       | WriteFile _ _ \<Rightarrow> True
       | LogUpdated _ \<Rightarrow> True
       | LogNoScripts _ \<Rightarrow> True
       | _ \<Rightarrow> False))"

text \<open>The pattern has a capturing group.\<close>

definition hasGroup :: "item list \<Rightarrow> bool" where
  "hasGroup p = (\<exists>c lo. Many c lo True \<in> set p)"

text \<open>A second run of the stage on the file system that a first run left.\<close>

definition secondRun :: "nat \<Rightarrow> host \<Rightarrow> options \<Rightarrow> filesys \<Rightarrow> (filesys \<times> event list) outcome" where
  "secondRun n h opts fs =
     (case closeBundle n h opts fs of
        Returned (fs', tr) \<Rightarrow> closeBundle n h opts fs'
      | other \<Rightarrow> other)"

section \<open>Example data\<close>

definition fsOf :: "(path \<times> node) list \<Rightarrow> filesys" where
  "fsOf xs = \<lparr> node_at = map_of xs, writable = (\<lambda>p. True) \<rparr>"

definition tagA :: jsstring where
  \<open>tagA = js ''<script src="a.js" inline></script>''\<close>

text \<open>
  A project in \<^verbatim>\<open>/proj\<close>: its \<^verbatim>\<open>dist\<close> directory holds \<^verbatim>\<open>index.html\<close> with the text \<open>doc\<close> and
  \<^verbatim>\<open>a.js\<close> with the text \<open>c\<close>.
\<close>

definition projFs :: "jsstring \<Rightarrow> jsstring \<Rightarrow> filesys" where
  "projFs doc c =
     fsOf [ (js ''/proj/dist'', DirNode [js ''index.html'', js ''a.js'']),
            (js ''/proj/dist/index.html'', FileNode doc),
            (js ''/proj/dist/a.js'', FileNode c) ]"

definition projHost :: host where
  "projHost = posixHost (js ''/proj'') None"

text \<open>
  The same project with a document that refers to a script of another host by a
  protocol-relative URL, on a machine that has a file \<^verbatim>\<open>/cdn.example.com/lib.js\<close>.
\<close>

definition cdnTag :: jsstring where
  \<open>cdnTag = js ''<script src="//cdn.example.com/lib.js"></script>''\<close>

definition cdnFs :: filesys where
  "cdnFs =
     fsOf [ (js ''/proj/dist'', DirNode [js ''index.html'']),
            (js ''/proj/dist/index.html'', FileNode cdnTag),
            (js ''/cdn.example.com/lib.js'', FileNode (js ''lib();'')) ]"

definition indexHtml :: path where
  "indexHtml = js ''/proj/dist/index.html''"

definition distPath :: path where
  "distPath = js ''/proj/dist''"

definition startState :: "jsstring \<Rightarrow> loopState" where
  "startState doc = \<lparr>htmlContent = doc, modified = False, lastIndex = 0, trace = []\<rparr>"

text \<open>A tag whose script is nowhere.\<close>

definition tagB :: jsstring where
  \<open>tagB = js ''<script src="b.js" inline></script>''\<close>


text \<open>The project with a second \<^verbatim>\<open>a.js\<close> in the source directory \<^verbatim>\<open>src\<close>.\<close>

definition twoCopiesFs :: filesys where
  "twoCopiesFs =
     fsOf [ (js ''/proj/dist'', DirNode [js ''index.html'', js ''a.js'']),
            (js ''/proj/dist/index.html'', FileNode tagA),
            (js ''/proj/dist/a.js'', FileNode (js ''built();'')),
            (js ''/proj/src/a.js'', FileNode (js ''source();'')) ]"

text \<open>
  The project with a script of its own whose file name begins with the letters \<^verbatim>\<open>http\<close>.
\<close>

definition localHttpTag :: jsstring where
  \<open>localHttpTag = js ''<script src="http-client.js" inline></script>''\<close>

definition localHttpFs :: filesys where
  "localHttpFs =
     fsOf [ (js ''/proj/dist'', DirNode [js ''index.html'', js ''http-client.js'']),
            (js ''/proj/dist/index.html'', FileNode localHttpTag),
            (js ''/proj/dist/http-client.js'', FileNode (js ''fetchAll();'')) ]"





section \<open>Lemmas\<close>

subsection \<open>Strings\<close>

lemma startsWith_iff: "startsWith s p \<longleftrightarrow> (\<exists>b. s = p @ b)"
proof
  assume "startsWith s p"
  then have "s = p @ drop (length p) s"
    unfolding startsWith_def by (metis append_take_drop_id)
  then show "\<exists>b. s = p @ b" ..
next
  assume "\<exists>b. s = p @ b"
  then show "startsWith s p" unfolding startsWith_def by auto
qed

lemma indexOfFrom_Some:
  "indexOfFrom s p i = Some j \<Longrightarrow>
     i \<le> j \<and> j - i \<le> length s \<and> startsWith (drop (j - i) s) p
     \<and> (\<forall>m < j - i. \<not> startsWith (drop m s) p)"
proof (induction s p i rule: indexOfFrom.induct)
  case (1 p i)
  then show ?case by (auto simp: startsWith_def split: if_splits)
next
  case (2 x t p i)
  show ?case
  proof (cases "startsWith (x # t) p")
    case True
    with 2 show ?thesis by simp
  next
    case False
    with 2 have r: "indexOfFrom t p (Suc i) = Some j" by simp
    from "2.IH"[OF False r] have ih: "Suc i \<le> j" "j - Suc i \<le> length t"
      "startsWith (drop (j - Suc i) t) p" "\<forall>m < j - Suc i. \<not> startsWith (drop m t) p"
      by auto
    have e: "j - i = Suc (j - Suc i)" using ih(1) by arith
    have "\<forall>m < j - i. \<not> startsWith (drop m (x # t)) p"
    proof (intro allI impI)
      fix m assume m: "m < j - i"
      show "\<not> startsWith (drop m (x # t)) p"
      proof (cases m)
        case 0 then show ?thesis using False by simp
      next
        case (Suc m')
        then have "m' < j - Suc i" using m e by arith
        then show ?thesis using ih(4) Suc by simp
      qed
    qed
    then show ?thesis using ih e by simp
  qed
qed

lemma indexOfFrom_None:
  "indexOfFrom s p i = None \<Longrightarrow> k \<le> length s \<Longrightarrow> \<not> startsWith (drop k s) p"
proof (induction s p i arbitrary: k rule: indexOfFrom.induct)
  case (1 p i)
  then show ?case by (auto simp: startsWith_def split: if_splits)
next
  case (2 x t p i)
  then show ?case by (cases k) (auto split: if_splits)
qed

lemma indexOf_split:
  assumes "indexOf s p = Some i"
  shows "s = take i s @ p @ drop (i + length p) s"
proof -
  from indexOfFrom_Some[OF assms[unfolded indexOf_def]]
  have "startsWith (drop i s) p" by simp
  then obtain b where b: "drop i s = p @ b" unfolding startsWith_iff ..
  then have "drop (i + length p) s = b"
    by (metis add.commute append_eq_conv_conj drop_drop)
  then show ?thesis using b by (metis append_take_drop_id)
qed

lemma includesStr_iff: "includesStr s p \<longleftrightarrow> (\<exists>a b. s = a @ p @ b)"
proof
  assume "includesStr s p"
  then obtain i where "indexOf s p = Some i" unfolding includesStr_def by auto
  from indexOf_split[OF this] show "\<exists>a b. s = a @ p @ b" by blast
next
  assume "\<exists>a b. s = a @ p @ b"
  then obtain a b where s: "s = a @ p @ b" by blast
  show "includesStr s p"
  proof (rule ccontr)
    assume "\<not> includesStr s p"
    then have "indexOfFrom s p 0 = None" unfolding includesStr_def indexOf_def by simp
    from indexOfFrom_None[OF this, of "length a"] s
    show False by (simp add: startsWith_iff)
  qed
qed

lemma getSubstitution_plain:
  "of_char CHR ''$'' \<notin> set r \<Longrightarrow> getSubstitution m a b r = r"
  by (induction m a b r rule: getSubstitution.induct) auto

lemma replace_plain:
  assumes "indexOf s p = Some i" and "of_char CHR ''$'' \<notin> set r"
  shows "replace s p r = take i s @ r @ drop (i + length p) s"
  using assms unfolding replace_def by (simp add: getSubstitution_plain Let_def)

lemma inlineScriptTag_plain:
  "of_char CHR ''$'' \<notin> set c \<Longrightarrow> of_char CHR ''$'' \<notin> set (inlineScriptTag c)"
  unfolding inlineScriptTag_def by simp

subsection \<open>The search for the file\<close>

lemma trySourceDirs_find:
  "trySourceDirs h fs srcPath dirs (jp, False, asked) =
     (case List.find (existsSync fs) (map (\<lambda>dir. path_resolve h [cwd h, dir, stripDotSlash srcPath]) dirs) of
        Some p \<Rightarrow> (p, True, asked @ takeWhile (\<lambda>q. \<not> existsSync fs q)
                     (map (\<lambda>dir. path_resolve h [cwd h, dir, stripDotSlash srcPath]) dirs) @ [p])
      | None \<Rightarrow> (jp, False, asked @ map (\<lambda>dir. path_resolve h [cwd h, dir, stripDotSlash srcPath]) dirs))"
  by (induction dirs arbitrary: asked) (auto simp: Let_def split: option.splits)

lemma resolveSource_find:
  "resolveSource h opts fs htmlFile distDir srcPath =
     (case List.find (existsSync fs) (candidatePaths h opts htmlFile distDir srcPath) of
        Some p \<Rightarrow> (p, True, takeWhile (\<lambda>q. \<not> existsSync fs q) (candidatePaths h opts htmlFile distDir srcPath) @ [p])
      | None \<Rightarrow> (path_resolve h [cwd h, srcPath], False, candidatePaths h opts htmlFile distDir srcPath))"
  unfolding resolveSource_def candidatePaths_def
  by (simp add: Let_def trySourceDirs_find split: option.splits)

subsection \<open>The warnings about a file that is nowhere\<close>

lemma attempts_enumerate:
  "map (\<lambda>(index, dir). WarnAttempt (index + 4) (f dir)) (enumerate m dirs)
   = map (\<lambda>(i, p). WarnAttempt (Suc i) p) (enumerate (m + 3) (map f dirs))"
  by (induction dirs arbitrary: m) auto

lemma attemptedPaths_candidates:
  "attemptedPaths h opts htmlFile distDir srcPath =
     [WarnCouldNotFind srcPath, WarnAttemptedPaths]
     @ map (\<lambda>(i, p). WarnAttempt (Suc i) p) (enumerate 0 (candidatePaths h opts htmlFile distDir srcPath))"
  unfolding attemptedPaths_def candidatePaths_def
  using attempts_enumerate[of "\<lambda>dir. path_resolve h [cwd h, dir, stripDotSlash srcPath]" 0 "sourceDirs opts"]
  by (simp add: eval_nat_numeral)

lemma find_None_all: "(\<forall>p \<in> set xs. \<not> P p) \<Longrightarrow> List.find P xs = None"
  by (simp add: find_None_iff)

subsection \<open>Events of the loop\<close>

lemma minifyIfEnabled_events:
  assumes "minifyIfEnabled opts tm s c = (c', evs)"
  shows "list_all (scriptEvent (minify opts \<and> tm \<noteq> None)) evs \<and> \<not> list_ex isInlined evs"
  using assms
  by (auto simp: minifyIfEnabled_def minifyContent_def scriptEvent_def isInlined_def
      split: minifyResult.splits option.splits bool.splits)

lemma attemptedPaths_events:
  "list_all (scriptEvent b) (attemptedPaths h opts htmlFile distDir srcPath)
   \<and> \<not> list_ex isInlined (attemptedPaths h opts htmlFile distDir srcPath)"
  by (auto simp: attemptedPaths_def scriptEvent_def isInlined_def list_all_iff list_ex_iff)

lemma handleMatch_events:
  "\<exists>ev. trace (handleMatch h opts tm fs htmlFile distDir fullMatch srcPath st) = trace st @ ev
      \<and> list_all (scriptEvent (minify opts \<and> tm \<noteq> None)) ev
      \<and> (modified (handleMatch h opts tm fs htmlFile distDir fullMatch srcPath st)
           \<longleftrightarrow> modified st \<or> list_ex isInlined ev)
      \<and> lastIndex (handleMatch h opts tm fs htmlFile distDir fullMatch srcPath st) = lastIndex st"
proof (cases "skipped opts fullMatch srcPath")
  case True
  then show ?thesis by (simp add: handleMatch_def)
next
  case False
  obtain jp fe asked where r: "resolveSource h opts fs htmlFile distDir srcPath = (jp, fe, asked)"
    by (cases "resolveSource h opts fs htmlFile distDir srcPath") auto
  show ?thesis
  proof (cases fe)
    case nf: False
    show ?thesis
      using False r nf attemptedPaths_events[of "minify opts \<and> tm \<noteq> None" h opts htmlFile distDir srcPath]
      by (auto simp: handleMatch_def inlineScript_def)
  next
    case found: True
    show ?thesis
    proof (cases "readFileSync fs jp")
      case None
      then show ?thesis using False r found
        by (auto simp: handleMatch_def inlineScript_def scriptEvent_def isInlined_def)
    next
      case (Some content)
      show ?thesis
      proof (cases "transformContent opts content srcPath")
        case None
        then show ?thesis using False r found Some
          by (auto simp: handleMatch_def inlineScript_def scriptEvent_def isInlined_def)
      next
        case (Some jsContent)
        obtain c' evs where m: "minifyIfEnabled opts tm srcPath jsContent = (c', evs)"
          by (cases "minifyIfEnabled opts tm srcPath jsContent") auto
        from minifyIfEnabled_events[OF m]
        show ?thesis using False r found \<open>readFileSync fs jp = Some content\<close> Some m
          by (auto simp: handleMatch_def inlineScript_def scriptEvent_def isInlined_def)
      qed
    qed
  qed
qed

lemma loop_events:
  "processScriptTags n h opts tm fs htmlFile distDir st = Returned st'
     \<or> processScriptTags n h opts tm fs htmlFile distDir st = Thrown st' \<Longrightarrow>
   \<exists>ev. trace st' = trace st @ ev
      \<and> list_all (scriptEvent (minify opts \<and> tm \<noteq> None)) ev
      \<and> (modified st' \<longleftrightarrow> modified st \<or> list_ex isInlined ev)"
proof (induction n arbitrary: st)
  case 0
  then show ?case by simp
next
  case (Suc n)
  obtain m li where e: "exec (scriptTagPattern opts) (htmlContent st) (lastIndex st) = (m, li)"
    by (cases "exec (scriptTagPattern opts) (htmlContent st) (lastIndex st)") auto
  show ?case
  proof (cases m)
    case None
    with Suc.prems e show ?thesis by auto
  next
    case (Some fg)
    obtain fullMatch g where fg: "fg = (fullMatch, g)" by (cases fg) auto
    show ?thesis
    proof (cases g)
      case None
      with Suc.prems e Some fg show ?thesis by auto
    next
      case (Some srcPath)
      let ?st1 = "handleMatch h opts tm fs htmlFile distDir fullMatch srcPath (st\<lparr>lastIndex := li\<rparr>)"
      from Suc.prems e \<open>m = Some fg\<close> fg Some
      have "processScriptTags n h opts tm fs htmlFile distDir ?st1 = Returned st'
          \<or> processScriptTags n h opts tm fs htmlFile distDir ?st1 = Thrown st'"
        by simp
      from Suc.IH[OF this] obtain ev2 where ev2: "trace st' = trace ?st1 @ ev2"
        "list_all (scriptEvent (minify opts \<and> tm \<noteq> None)) ev2"
        "modified st' \<longleftrightarrow> modified ?st1 \<or> list_ex isInlined ev2" by blast
      from handleMatch_events[of h opts tm fs htmlFile distDir fullMatch srcPath "st\<lparr>lastIndex := li\<rparr>"]
      obtain ev1 where ev1: "trace ?st1 = trace st @ ev1"
        "list_all (scriptEvent (minify opts \<and> tm \<noteq> None)) ev1"
        "modified ?st1 \<longleftrightarrow> modified st \<or> list_ex isInlined ev1" by auto
      show ?thesis
        by (rule exI[of _ "ev1 @ ev2"]) (use ev1 ev2 in auto)
    qed
  qed
qed

subsection \<open>A pattern with a group never leaves srcPath undefined\<close>

lemma firstSome_Some: "firstSome f ks = Some r \<Longrightarrow> \<exists>k \<in> set ks. f k = Some r"
  by (induction ks) (auto split: option.splits)

lemma hasGroup_simps [simp]:
  "hasGroup [] = False"
  "hasGroup (Chars t # p) = hasGroup p"
  "hasGroup (Single c # p) = hasGroup p"
  "hasGroup (Many c lo cap # p) = (cap \<or> hasGroup p)"
  by (auto simp: hasGroup_def)

lemma matchHere_group:
  "matchHere p s = Some (n, g) \<Longrightarrow> (g \<noteq> None \<longleftrightarrow> hasGroup p)"
proof (induction p s arbitrary: n g rule: matchHere.induct)
  case (1 s)
  then show ?case by simp
next
  case (2 t p s)
  then show ?case by (simp split: if_splits option.splits prod.splits)
next
  case (3 c p s)
  then show ?case by (simp split: if_splits option.splits list.splits prod.splits)
next
  case (4 c lo cap p s)
  from firstSome_Some[OF "4.prems"[simplified]]
  obtain k n' g' where k: "matchHere p (drop k s) = Some (n', g')"
    and g: "g = (if cap then Some (take k s) else g')"
    by (auto split: option.splits)
  from "4.IH"[OF k] have "g' \<noteq> None \<longleftrightarrow> hasGroup p" .
  then show ?case using g by auto
qed

lemma search_Some:
  "search p s i = Some (j, n, g) \<Longrightarrow>
     i \<le> j \<and> j - i \<le> length s \<and> matchHere p (drop (j - i) s) = Some (n, g)"
proof (induction p s i rule: search.induct)
  case (1 p i)
  then show ?case by (auto split: option.splits)
next
  case (2 p x t i)
  show ?case
  proof (cases "matchHere p (x # t)")
    case None
    with 2 have "search p t (Suc i) = Some (j, n, g)" by simp
    from "2.IH"[OF None this] have ih: "Suc i \<le> j" "j - Suc i \<le> length t"
      "matchHere p (drop (j - Suc i) t) = Some (n, g)" by auto
    have "j - i = Suc (j - Suc i)" using ih(1) by arith
    then show ?thesis using ih by simp
  next
    case (Some a)
    with 2 show ?thesis by auto
  qed
qed

lemma exec_Some:
  assumes "exec re s li = (Some (fullMatch, g), li')"
  shows "\<exists>j n. j \<le> length s \<and> matchHere (items re) (drop j s) = Some (n, g)
           \<and> fullMatch = take n (drop j s)
           \<and> (global re \<longrightarrow> li \<le> j \<and> li' = j + n)"
proof (cases "global re")
  case True
  with assms obtain j n where le: "li \<le> length s"
    and s: "search (items re) (drop li s) li = Some (j, n, g)"
    and f: "fullMatch = take n (drop j s)" and l: "li' = j + n"
    by (auto simp: exec_def split: if_splits option.splits)
  from search_Some[OF s] have "li \<le> j" "j - li \<le> length s - li"
    "matchHere (items re) (drop (j - li) (drop li s)) = Some (n, g)" by auto
  then show ?thesis using le f l True by (intro exI[of _ j] exI[of _ n]) auto
next
  case False
  with assms obtain j n where s: "search (items re) s 0 = Some (j, n, g)"
    and f: "fullMatch = take n (drop j s)"
    by (auto simp: exec_def split: if_splits option.splits)
  from search_Some[OF s] show ?thesis using f False by (intro exI[of _ j] exI[of _ n]) auto
qed

lemma never_thrown:
  "hasGroup (items (scriptTagPattern opts)) \<Longrightarrow>
   processScriptTags n h opts tm fs htmlFile distDir st \<noteq> Thrown st'"
proof (induction n arbitrary: st)
  case 0
  then show ?case by simp
next
  case (Suc n)
  obtain m li where e: "exec (scriptTagPattern opts) (htmlContent st) (lastIndex st) = (m, li)"
    by (cases "exec (scriptTagPattern opts) (htmlContent st) (lastIndex st)") auto
  show ?case
  proof (cases m)
    case None
    with e show ?thesis by simp
  next
    case (Some fg)
    obtain fullMatch g where fg: "fg = (fullMatch, g)" by (cases fg) auto
    from exec_Some[OF e[unfolded Some fg]] matchHere_group Suc.prems
    have "g \<noteq> None" by blast
    then obtain srcPath where "g = Some srcPath" by auto
    with e Some fg Suc.IH[OF Suc.prems] show ?thesis by simp
  qed
qed

lemma thrown_untouched:
  "processScriptTags n h opts tm fs htmlFile distDir st = Thrown st' \<Longrightarrow>
   trace st' = trace st \<and> modified st' = modified st \<and> htmlContent st' = htmlContent st"
proof (induction n arbitrary: st)
  case 0
  then show ?case by simp
next
  case (Suc n)
  obtain m li where e: "exec (scriptTagPattern opts) (htmlContent st) (lastIndex st) = (m, li)"
    by (cases "exec (scriptTagPattern opts) (htmlContent st) (lastIndex st)") auto
  show ?case
  proof (cases m)
    case None
    with e Suc.prems show ?thesis by simp
  next
    case (Some fg)
    obtain fullMatch g where fg: "fg = (fullMatch, g)" by (cases fg) auto
    show ?thesis
    proof (cases g)
      case None
      with e Some fg Suc.prems show ?thesis by auto
    next
      case (Some srcPath)
      from exec_Some[OF e[unfolded \<open>m = Some fg\<close> fg]] matchHere_group Some
      have "hasGroup (items (scriptTagPattern opts))" by blast
      from never_thrown[OF this] e \<open>m = Some fg\<close> fg Some Suc.prems
      show ?thesis by simp
    qed
  qed
qed

subsection \<open>A file is written when a script was inlined\<close>

lemma scriptEvent_not_write: "list_all (scriptEvent b) ev \<Longrightarrow> \<not> list_ex isWriteFile ev"
  by (auto simp: list_all_iff list_ex_iff scriptEvent_def isWriteFile_def split: event.splits)

lemma processFile_written_iff:
  assumes "processFile n h opts tm distDir htmlFile (fs, tr) = Some (fs', tr')"
  shows "take (length tr) tr' = tr
       \<and> (list_ex isWriteFile (drop (length tr) tr') \<longleftrightarrow> list_ex isInlined (drop (length tr) tr'))
       \<and> (\<not> list_ex isInlined (drop (length tr) tr') \<longrightarrow> fs' = fs)"
proof (cases "readFileSync fs htmlFile")
  case None
  with assms show ?thesis by (auto simp: processFile_def isWriteFile_def isInlined_def)
next
  case (Some content)
  let ?tr1 = "tr @ [LogProcessing (path_relative h distDir htmlFile)]"
  let ?st0 = "\<lparr>htmlContent = content, modified = False, lastIndex = 0, trace = ?tr1\<rparr>"
  let ?r = "processScriptTags n h opts tm fs htmlFile distDir ?st0"
  show ?thesis
  proof (cases ?r)
    case OutOfFuel
    with assms Some show ?thesis by (simp add: processFile_def)
  next
    case (Thrown st)
    from thrown_untouched[OF Thrown] have "trace st = ?tr1" by simp
    with assms Some Thrown show ?thesis
      by (auto simp: processFile_def isWriteFile_def isInlined_def)
  next
    case (Returned st)
    from loop_events[of n h opts tm fs htmlFile distDir ?st0 st] Returned
    obtain ev where ev: "trace st = ?tr1 @ ev"
      "list_all (scriptEvent (minify opts \<and> tm \<noteq> None)) ev"
      "modified st \<longleftrightarrow> list_ex isInlined ev" by auto
    note nw = scriptEvent_not_write[OF ev(2)]
    show ?thesis
    proof (cases "modified st")
      case True
      with assms Some Returned ev nw show ?thesis
        by (auto simp: processFile_def isWriteFile_def isInlined_def split: option.splits)
    next
      case False
      with assms Some Returned ev nw show ?thesis
        by (auto simp: processFile_def isWriteFile_def isInlined_def split: option.splits)
    qed
  qed
qed

subsection \<open>A document without an eligible reference\<close>

lemma exec_None_global: "global re \<Longrightarrow> exec re s li = (None, li') \<Longrightarrow> li' = 0"
  by (auto simp: exec_def split: if_splits option.splits)

lemma matchHere_Chars_length:
  "matchHere (Chars t # p) s = Some (n, g) \<Longrightarrow> startsWith s t \<and> length t \<le> n"
  by (auto split: if_splits option.splits)

lemma default_items:
  "\<exists>p. items defaultScriptTagPattern = Chars (js ''<script'') # Many Space 1 False # p"
  by (simp add: defaultScriptTagPattern_def)

lemma default_positive:
  assumes "matchHere (items defaultScriptTagPattern) s = Some (n, g)"
  shows "0 < n"
proof -
  from default_items obtain p where
    p: "items defaultScriptTagPattern = Chars (js ''<script'') # Many Space 1 False # p" ..
  from assms have "matchHere (Chars (js ''<script'') # Many Space 1 False # p) s = Some (n, g)"
    unfolding p .
  from matchHere_Chars_length[OF this] have "length (js ''<script'') \<le> n" ..
  then show ?thesis by simp
qed

lemma loop_noEligible:
  assumes pat: "scriptTagPattern opts = defaultScriptTagPattern"
    and ne: "noEligible opts content"
  shows "htmlContent st = content \<Longrightarrow> length content + 1 - lastIndex st < n \<Longrightarrow>
         processScriptTags n h opts tm fs htmlFile distDir st = Returned (st\<lparr>lastIndex := 0\<rparr>)"
proof (induction n arbitrary: st)
  case 0
  then show ?case by simp
next
  case (Suc n)
  have gl: "global (scriptTagPattern opts)" by (simp add: pat defaultScriptTagPattern_def)
  obtain m li where e: "exec (scriptTagPattern opts) (htmlContent st) (lastIndex st) = (m, li)"
    by (cases "exec (scriptTagPattern opts) (htmlContent st) (lastIndex st)") auto
  show ?case
  proof (cases m)
    case None
    with e exec_None_global[OF gl] show ?thesis by auto
  next
    case (Some fg)
    obtain fullMatch g where fg: "fg = (fullMatch, g)" by (cases fg) auto
    from exec_Some[OF e[unfolded Some fg]] gl Suc.prems(1)
    obtain j k where j: "j \<le> length content"
      and mh: "matchHere (items (scriptTagPattern opts)) (drop j content) = Some (k, g)"
      and fm: "fullMatch = take k (drop j content)"
      and li: "lastIndex st \<le> j" "li = j + k" by auto
    from ne j have "\<not> eligibleAt opts content j" by (cases "j = length content") (auto simp: noEligible_def list_all_iff)
    with mh fm obtain srcPath where g: "g = Some srcPath" and sk: "skipped opts fullMatch srcPath"
      by (cases g) (auto simp: eligibleAt_def)
    from default_positive mh pat have "0 < k" by simp
    with li j Suc.prems(2) have meas: "length content + 1 - li < n" by arith
    have "processScriptTags n h opts tm fs htmlFile distDir (st\<lparr>lastIndex := li\<rparr>)
          = Returned (st\<lparr>lastIndex := li\<rparr>\<lparr>lastIndex := 0\<rparr>)"
      by (rule Suc.IH) (use Suc.prems(1) meas in auto)
    then show ?thesis using e Some fg g sk by (simp add: handleMatch_def)
  qed
qed

lemma processFile_noEligible:
  assumes "scriptTagPattern opts = defaultScriptTagPattern"
    and "readFileSync fs htmlFile = Some content"
    and "noEligible opts content"
    and "length content + 1 < n"
  shows "processFile n h opts tm distDir htmlFile (fs, tr) =
         Some (fs, tr @ [LogProcessing (path_relative h distDir htmlFile),
                         LogNoScripts (path_relative h distDir htmlFile)])"
  using assms(2)
    loop_noEligible[OF assms(1,3), of "\<lparr>htmlContent = content, modified = False, lastIndex = 0,
      trace = tr @ [LogProcessing (path_relative h distDir htmlFile)]\<rparr>" n h tm fs htmlFile distDir]
    assms(4)
  by (simp add: processFile_def)

subsection \<open>Events of a file and of a run\<close>

lemma processFile_events:
  assumes "processFile n h opts tm distDir htmlFile (fs, tr) = Some (fs', tr')"
  shows "\<exists>ev. tr' = tr @ ev \<and> list_all (fileEvent (minify opts \<and> tm \<noteq> None)) ev"
proof (cases "readFileSync fs htmlFile")
  case None
  with assms show ?thesis by (auto simp: processFile_def fileEvent_def)
next
  case (Some content)
  let ?tr1 = "tr @ [LogProcessing (path_relative h distDir htmlFile)]"
  let ?st0 = "\<lparr>htmlContent = content, modified = False, lastIndex = 0, trace = ?tr1\<rparr>"
  let ?r = "processScriptTags n h opts tm fs htmlFile distDir ?st0"
  have se: "list_all (scriptEvent b) ev \<Longrightarrow> list_all (fileEvent b) ev" for b ev
    by (auto simp: list_all_iff fileEvent_def)
  show ?thesis
  proof (cases ?r)
    case OutOfFuel
    with assms Some show ?thesis by (simp add: processFile_def)
  next
    case (Thrown st)
    from loop_events[of n h opts tm fs htmlFile distDir ?st0 st] Thrown
    obtain ev where ev: "trace st = ?tr1 @ ev"
      "list_all (scriptEvent (minify opts \<and> tm \<noteq> None)) ev" by auto
    from assms Some Thrown have "tr' = tr @ ([LogProcessing (path_relative h distDir htmlFile)] @ ev
         @ [ErrorProcessing htmlFile])"
      by (auto simp: processFile_def ev(1))
    moreover have "list_all (fileEvent (minify opts \<and> tm \<noteq> None))
       ([LogProcessing (path_relative h distDir htmlFile)] @ ev @ [ErrorProcessing htmlFile])"
      using se[OF ev(2)] by (simp add: fileEvent_def)
    ultimately show ?thesis by blast
  next
    case (Returned st)
    from loop_events[of n h opts tm fs htmlFile distDir ?st0 st] Returned
    obtain ev where ev: "trace st = ?tr1 @ ev"
      "list_all (scriptEvent (minify opts \<and> tm \<noteq> None)) ev" by auto
    from assms Some Returned obtain tl where "tr' = trace st @ tl"
      "list_all (fileEvent (minify opts \<and> tm \<noteq> None)) tl"
      by (auto simp: processFile_def fileEvent_def split: if_splits option.splits)
    then have "tr' = tr @ ([LogProcessing (path_relative h distDir htmlFile)] @ ev @ tl)"
      "list_all (fileEvent (minify opts \<and> tm \<noteq> None))
         ([LogProcessing (path_relative h distDir htmlFile)] @ ev @ tl)"
      using se[OF ev(2)] ev(1) by (auto simp: fileEvent_def)
    then show ?thesis by blast
  qed
qed

lemma processFiles_events:
  "processFiles n h opts tm distDir htmlFiles (fs, tr) = Some (fs', tr') \<Longrightarrow>
   \<exists>ev. tr' = tr @ ev \<and> list_all (fileEvent (minify opts \<and> tm \<noteq> None)) ev"
proof (induction htmlFiles arbitrary: fs tr)
  case Nil
  then show ?case by simp
next
  case (Cons f fs0)
  from Cons.prems obtain fs1 tr1 where
    one: "processFile n h opts tm distDir f (fs, tr) = Some (fs1, tr1)"
    and rest: "processFiles n h opts tm distDir fs0 (fs1, tr1) = Some (fs', tr')"
    by (auto split: option.splits)
  from processFile_events[OF one] obtain ev1 where
    ev1: "tr1 = tr @ ev1" "list_all (fileEvent (minify opts \<and> tm \<noteq> None)) ev1" by blast
  from Cons.IH[OF rest] obtain ev2 where
    ev2: "tr' = tr1 @ ev2" "list_all (fileEvent (minify opts \<and> tm \<noteq> None)) ev2" by blast
  show ?case by (rule exI[of _ "ev1 @ ev2"]) (use ev1 ev2 in simp)
qed

lemma fileEvent_not_import: "fileEvent b e \<Longrightarrow> e \<noteq> ImportTerser"
  by (cases e) (simp_all add: fileEvent_def scriptEvent_def)

lemma fileEvent_not_minifier: "fileEvent False e \<Longrightarrow> \<not> isMinifierEvent e"
  by (cases e) (simp_all add: fileEvent_def scriptEvent_def isMinifierEvent_def)

lemma fileEvent_no_import: "list_all (fileEvent b) ev \<Longrightarrow> filter (\<lambda>e. e = ImportTerser) ev = []"
  using fileEvent_not_import by (auto simp: list_all_iff filter_empty_conv)

lemma fileEvent_no_minifier: "list_all (fileEvent False) ev \<Longrightarrow> filter isMinifierEvent ev = []"
  using fileEvent_not_minifier by (auto simp: list_all_iff filter_empty_conv)

lemma closeBundle_events:
  assumes "closeBundle n h opts fs = Returned (fs', tr)"
  shows "\<exists>ev. tr = LogLooking # snd (loadTerser h opts) @ ev
          \<and> filter (\<lambda>e. e = ImportTerser) ev = []
          \<and> (fst (loadTerser h opts) = None \<longrightarrow> filter isMinifierEvent ev = [])"
proof -
  obtain tm le where l: "loadTerser h opts = (tm, le)" by (cases "loadTerser h opts") auto
  let ?distDir = "path_resolve h [cwd h, js ''dist'']"
  show ?thesis
  proof (cases "existsSync fs ?distDir")
    case False
    with assms l show ?thesis
      by (auto simp: closeBundle_def isMinifierEvent_def)
  next
    case True
    with assms l obtain htmlFiles fs1 tr1 where
      "findHtmlFiles n h fs ?distDir [] = Returned htmlFiles"
      and p: "processFiles n h opts tm ?distDir htmlFiles
               (fs, (LogLooking # le) @ [LogFound (length htmlFiles)]) = Some (fs1, tr1)"
      and t: "tr = tr1 @ [LogCompleted]"
      by (auto simp: closeBundle_def Let_def split: outcome.splits option.splits)
    from processFiles_events[OF p] obtain ev where
      ev: "tr1 = (LogLooking # le) @ [LogFound (length htmlFiles)] @ ev"
        "list_all (fileEvent (minify opts \<and> tm \<noteq> None)) ev" by auto
    have "tr = LogLooking # le @ ([LogFound (length htmlFiles)] @ ev @ [LogCompleted])"
      using t ev(1) by simp
    moreover have "filter (\<lambda>e. e = ImportTerser) ([LogFound (length htmlFiles)] @ ev @ [LogCompleted]) = []"
      using fileEvent_no_import[OF ev(2)] by simp
    moreover have "tm = None \<longrightarrow> filter isMinifierEvent ([LogFound (length htmlFiles)] @ ev @ [LogCompleted]) = []"
      using fileEvent_no_minifier[of ev] ev(2) by (auto simp: isMinifierEvent_def)
    ultimately show ?thesis using l by auto
  qed
qed

subsection \<open>A failed load is a run without minification\<close>

lemma handleMatch_minify_off:
  "handleMatch h opts None fs htmlFile distDir fullMatch srcPath st
   = handleMatch h (opts\<lparr>minify := False\<rparr>) None fs htmlFile distDir fullMatch srcPath st"
proof -
  have r: "resolveSource h (opts\<lparr>minify := False\<rparr>) fs htmlFile distDir srcPath
           = resolveSource h opts fs htmlFile distDir srcPath"
    by (simp add: resolveSource_def cong: if_cong)
  have a: "attemptedPaths h (opts\<lparr>minify := False\<rparr>) htmlFile distDir srcPath
           = attemptedPaths h opts htmlFile distDir srcPath"
    by (simp add: attemptedPaths_def)
  have m: "minifyIfEnabled (opts\<lparr>minify := False\<rparr>) None srcPath c
           = minifyIfEnabled opts None srcPath c" for c
    by (simp add: minifyIfEnabled_def split: bool.splits)
  have s: "skipped (opts\<lparr>minify := False\<rparr>) fullMatch srcPath = skipped opts fullMatch srcPath"
    by (simp add: skipped_def)
  have t: "transformContent (opts\<lparr>minify := False\<rparr>) = transformContent opts" by simp
  have i: "inlineScript h (opts\<lparr>minify := False\<rparr>) None fs htmlFile distDir fullMatch srcPath st
           = inlineScript h opts None fs htmlFile distDir fullMatch srcPath st"
    unfolding inlineScript_def r a m t ..
  show ?thesis unfolding handleMatch_def s i ..
qed

lemma loop_minify_off:
  "processScriptTags n h opts None fs htmlFile distDir st
   = processScriptTags n h (opts\<lparr>minify := False\<rparr>) None fs htmlFile distDir st"
proof (induction n arbitrary: st)
  case 0
  show ?case by simp
next
  case (Suc n)
  have p: "scriptTagPattern (opts\<lparr>minify := False\<rparr>) = scriptTagPattern opts" by simp
  show ?case
    unfolding processScriptTags.simps p handleMatch_minify_off[of _ opts, symmetric]
      Suc.IH[symmetric] ..
qed

lemma processFile_minify_off:
  "processFile n h opts None distDir htmlFile s
   = processFile n h (opts\<lparr>minify := False\<rparr>) None distDir htmlFile s"
  unfolding processFile_def loop_minify_off[of _ _ opts, symmetric] ..

lemma processFiles_minify_off:
  "processFiles n h opts None distDir htmlFiles s
   = processFiles n h (opts\<lparr>minify := False\<rparr>) None distDir htmlFiles s"
proof (induction htmlFiles arbitrary: s)
  case Nil
  show ?case by simp
next
  case (Cons f fs0)
  show ?case
    unfolding processFiles.simps processFile_minify_off[of _ _ opts, symmetric]
      Cons.IH[symmetric] ..
qed

lemma handleMatch_shift:
  "handleMatch h opts tm fs htmlFile distDir fullMatch srcPath (st\<lparr>trace := xs @ trace st\<rparr>)
   = (handleMatch h opts tm fs htmlFile distDir fullMatch srcPath st)
       \<lparr>trace := xs @ trace (handleMatch h opts tm fs htmlFile distDir fullMatch srcPath st)\<rparr>"
  by (auto simp: handleMatch_def inlineScript_def split: prod.splits option.splits)

lemma loop_shift:
  "processScriptTags n h opts tm fs htmlFile distDir (st\<lparr>trace := xs @ trace st\<rparr>)
   = map_outcome (\<lambda>s. s\<lparr>trace := xs @ trace s\<rparr>) (processScriptTags n h opts tm fs htmlFile distDir st)"
proof (induction n arbitrary: st)
  case 0
  then show ?case by simp
next
  case (Suc n)
  obtain m li where e: "exec (scriptTagPattern opts) (htmlContent st) (lastIndex st) = (m, li)"
    by (cases "exec (scriptTagPattern opts) (htmlContent st) (lastIndex st)") auto
  show ?case
  proof (cases m)
    case None
    with e show ?thesis by simp
  next
    case (Some fg)
    obtain fullMatch g where fg: "fg = (fullMatch, g)" by (cases fg) auto
    show ?thesis
    proof (cases g)
      case None
      with e Some fg show ?thesis by simp
    next
      case (Some srcPath)
      let ?s1 = "handleMatch h opts tm fs htmlFile distDir fullMatch srcPath (st\<lparr>lastIndex := li\<rparr>)"
      have c: "st\<lparr>trace := xs @ trace st, lastIndex := li\<rparr>
               = (st\<lparr>lastIndex := li\<rparr>)\<lparr>trace := xs @ trace (st\<lparr>lastIndex := li\<rparr>)\<rparr>"
        by simp
      have "handleMatch h opts tm fs htmlFile distDir fullMatch srcPath
              (st\<lparr>trace := xs @ trace st, lastIndex := li\<rparr>)
            = ?s1\<lparr>trace := xs @ trace ?s1\<rparr>"
        unfolding c handleMatch_shift ..
      then show ?thesis using e \<open>m = Some fg\<close> fg Some Suc.IH[of ?s1] by simp
    qed
  qed
qed

lemma processFile_shift:
  "processFile n h opts tm distDir htmlFile (fs, xs @ tr)
   = map_option (\<lambda>(fs', t). (fs', xs @ t)) (processFile n h opts tm distDir htmlFile (fs, tr))"
proof (cases "readFileSync fs htmlFile")
  case None
  then show ?thesis by (simp add: processFile_def)
next
  case (Some content)
  let ?st0 = "\<lparr>htmlContent = content, modified = False, lastIndex = 0,
               trace = tr @ [LogProcessing (path_relative h distDir htmlFile)]\<rparr>"
  have "processScriptTags n h opts tm fs htmlFile distDir
          \<lparr>htmlContent = content, modified = False, lastIndex = 0,
           trace = (xs @ tr) @ [LogProcessing (path_relative h distDir htmlFile)]\<rparr>
        = map_outcome (\<lambda>s. s\<lparr>trace := xs @ trace s\<rparr>)
            (processScriptTags n h opts tm fs htmlFile distDir ?st0)"
    using loop_shift[of n h opts tm fs htmlFile distDir xs ?st0] by simp
  then show ?thesis using Some
    by (cases "processScriptTags n h opts tm fs htmlFile distDir ?st0")
       (auto simp: processFile_def split: option.splits)
qed

lemma processFiles_shift:
  "processFiles n h opts tm distDir htmlFiles (fs, xs @ tr)
   = map_option (\<lambda>(fs', t). (fs', xs @ t)) (processFiles n h opts tm distDir htmlFiles (fs, tr))"
proof (induction htmlFiles arbitrary: fs tr)
  case Nil
  then show ?case by simp
next
  case (Cons f fs0)
  show ?case
  proof (cases "processFile n h opts tm distDir f (fs, tr)")
    case None
    then show ?thesis by (simp add: processFile_shift)
  next
    case (Some r)
    obtain fs1 tr1 where "r = (fs1, tr1)" by (cases r) auto
    with Some show ?thesis by (simp add: processFile_shift Cons.IH)
  qed
qed

subsection \<open>The default pattern on texts without a tag opener\<close>

lemma default_not_lt:
  "x \<noteq> of_char CHR ''<'' \<Longrightarrow> matchHere (items defaultScriptTagPattern) (x # s) = None"
  by (simp add: defaultScriptTagPattern_def startsWith_def)

lemma default_nil: "matchHere (items defaultScriptTagPattern) [] = None"
  by (simp add: defaultScriptTagPattern_def startsWith_def)

lemma search_nil: "search (items defaultScriptTagPattern) [] i = None"
  by (simp add: default_nil)

lemma search_skip:
  "of_char CHR ''<'' \<notin> set xs \<Longrightarrow>
   search (items defaultScriptTagPattern) (xs @ ys) i
   = search (items defaultScriptTagPattern) ys (i + length xs)"
  by (induction xs arbitrary: i) (simp_all add: default_not_lt)

lemma default_close:
  "matchHere (items defaultScriptTagPattern) (js ''</script>'' @ ys) = None"
  by (simp add: defaultScriptTagPattern_def startsWith_def)

lemma search_close:
  "search (items defaultScriptTagPattern) (js ''</script>'' @ ys) i
   = search (items defaultScriptTagPattern) ys (i + 9)"
proof -
  have "search (items defaultScriptTagPattern) (js ''</script>'' @ ys) i
        = search (items defaultScriptTagPattern) (js ''/script>'' @ ys) (Suc i)"
    using default_close[of ys] by simp
  also have "\<dots> = search (items defaultScriptTagPattern) ys (Suc i + length (js ''/script>''))"
    by (rule search_skip) simp
  also have "Suc i + length (js ''/script>'') = i + 9" by simp
  finally show ?thesis .
qed

lemma default_open:
  "matchHere (items defaultScriptTagPattern) (js ''<script>\<newline>'' @ ys) = None"
  by (simp add: defaultScriptTagPattern_def startsWith_def isSpace_def)

lemma search_open:
  "search (items defaultScriptTagPattern) (js ''<script>\<newline>'' @ ys) i
   = search (items defaultScriptTagPattern) ys (i + 9)"
proof -
  have "search (items defaultScriptTagPattern) (js ''<script>\<newline>'' @ ys) i
        = search (items defaultScriptTagPattern) (js ''script>\<newline>'' @ ys) (Suc i)"
    using default_open[of ys] by simp
  also have "\<dots> = search (items defaultScriptTagPattern) ys (Suc i + length (js ''script>\<newline>''))"
    by (rule search_skip) simp
  also have "Suc i + length (js ''script>\<newline>'') = i + 9" by simp
  finally show ?thesis .
qed

lemma search_inline:
  assumes "of_char CHR ''<'' \<notin> set c"
  shows "search (items defaultScriptTagPattern) (inlineScriptTag c @ ys) i
         = search (items defaultScriptTagPattern) ys (i + length (inlineScriptTag c))"
proof -
  have "search (items defaultScriptTagPattern) (js ''<script>\<newline>'' @ (c @ js ''</script>'' @ ys)) i
        = search (items defaultScriptTagPattern) (c @ js ''</script>'' @ ys) (i + 9)"
    by (rule search_open)
  also have "\<dots> = search (items defaultScriptTagPattern) (js ''</script>'' @ ys) (i + 9 + length c)"
    by (rule search_skip[OF assms])
  also have "\<dots> = search (items defaultScriptTagPattern) ys (i + 9 + length c + 9)"
    by (rule search_close)
  finally have r: "search (items defaultScriptTagPattern) (js ''<script>\<newline>'' @ (c @ js ''</script>'' @ ys)) i
        = search (items defaultScriptTagPattern) ys (i + 9 + length c + 9)" .
  have e: "inlineScriptTag c @ ys = js ''<script>\<newline>'' @ (c @ js ''</script>'' @ ys)"
    unfolding inlineScriptTag_def by (simp only: append_assoc)
  have l: "i + length (inlineScriptTag c) = i + 9 + length c + 9"
    by (simp add: inlineScriptTag_def)
  show ?thesis unfolding e l by (rule r)
qed

lemma indexOfFrom_skip:
  "p \<noteq> [] \<Longrightarrow> hd p \<notin> set xs \<Longrightarrow>
   indexOfFrom (xs @ ys) p i = indexOfFrom ys p (i + length xs)"
proof (induction xs arbitrary: i)
  case Nil
  then show ?case by simp
next
  case (Cons x xs)
  then have "\<not> startsWith (x # xs @ ys) p"
    by (cases p) (auto simp: startsWith_def)
  with Cons show ?case by simp
qed

lemma search_drop_close:
  assumes "of_char CHR ''<'' \<notin> set xs"
  shows "search (items defaultScriptTagPattern) (drop j (xs @ js ''</script>'') @ ys) i
         = search (items defaultScriptTagPattern) ys (i + (length xs + 9 - j))"
proof (cases "j \<le> length xs")
  case True
  have n: "of_char CHR ''<'' \<notin> set (drop j xs)" using assms by (auto dest: in_set_dropD)
  have "drop j (xs @ js ''</script>'') @ ys = drop j xs @ (js ''</script>'' @ ys)"
    using True by simp
  then have "search (items defaultScriptTagPattern) (drop j (xs @ js ''</script>'') @ ys) i
        = search (items defaultScriptTagPattern) (drop j xs @ (js ''</script>'' @ ys)) i" by simp
  also have "\<dots> = search (items defaultScriptTagPattern) (js ''</script>'' @ ys) (i + length (drop j xs))"
    by (rule search_skip[OF n])
  also have "\<dots> = search (items defaultScriptTagPattern) ys (i + length (drop j xs) + 9)"
    by (rule search_close)
  also have "i + length (drop j xs) + 9 = i + (length xs + 9 - j)" using True by simp
  finally show ?thesis .
next
  case False
  then obtain m where m: "j = length xs + Suc m" by (metis add_Suc_right less_imp_Suc_add not_le)
  have d: "drop j (xs @ js ''</script>'') = drop m (js ''/script>'')"
    unfolding m by simp
  have n: "of_char CHR ''<'' \<notin> set (drop m (js ''/script>''))"
    by (auto dest: in_set_dropD)
  have "search (items defaultScriptTagPattern) (drop m (js ''/script>'') @ ys) i
        = search (items defaultScriptTagPattern) ys (i + length (drop m (js ''/script>'')))"
    by (rule search_skip[OF n])
  also have "i + length (drop m (js ''/script>'')) = i + (length xs + 9 - j)"
    unfolding m by simp
  finally show ?thesis unfolding d .
qed

subsection \<open>The tag of the examples\<close>

lemma matchHere_tagA:
  "matchHere (items defaultScriptTagPattern) (tagA @ r) = Some (35, Some (js ''a.js''))"
  by (simp add: defaultScriptTagPattern_def startsWith_def quotes_def isSpace_def tagA_def)

lemma search_tagA:
  "search (items defaultScriptTagPattern) (tagA @ r) i = Some (i, 35, Some (js ''a.js''))"
proof -
  obtain x t where c: "tagA @ r = x # t" by (cases "tagA @ r") (auto simp: tagA_def)
  show ?thesis using matchHere_tagA[of r] unfolding c by simp
qed

lemma length_tagA: "length tagA = 35"
  by (simp add: tagA_def)

lemma tagA_split: "tagA = of_char CHR ''<'' # (js ''script src=\"a.js\" inline>'' @ js ''</script>'')"
  by (simp add: tagA_def)

lemma search_drop_tagA:
  "search (items defaultScriptTagPattern) (drop (Suc k) tagA) i = None"
proof -
  have n: "of_char CHR ''<'' \<notin> set (js ''script src=\"a.js\" inline>'')" by simp
  have "search (items defaultScriptTagPattern)
          (drop k (js ''script src=\"a.js\" inline>'' @ js ''</script>'') @ []) i
        = search (items defaultScriptTagPattern) []
            (i + (length (js ''script src=\"a.js\" inline>'') + 9 - k))"
    by (rule search_drop_close[OF n])
  then show ?thesis unfolding tagA_split by (simp add: default_nil)
qed

lemma indexOfFrom_tagA_first: "indexOfFrom (tagA @ r) tagA i = Some i"
proof -
  obtain x t where c: "tagA @ r = x # t" by (cases "tagA @ r") (auto simp: tagA_def)
  have "startsWith (tagA @ r) tagA" by (simp add: startsWith_iff)
  then show ?thesis unfolding c by simp
qed

lemma indexOf_tagA_first: "indexOf (tagA @ r) tagA = Some 0"
  unfolding indexOf_def by (rule indexOfFrom_tagA_first)

lemma indexOf_tagA_after_inline:
  assumes "of_char CHR ''<'' \<notin> set c"
  shows "indexOf (inlineScriptTag c @ tagA @ r) tagA = Some (length (inlineScriptTag c))"
proof -
  have p: "tagA \<noteq> []" "hd tagA = of_char CHR ''<''" by (simp_all add: tagA_def)
  have o: "\<not> startsWith (js ''<script>\<newline>'' @ ys) tagA" for ys
    by (simp add: startsWith_def tagA_def)
  have cl: "\<not> startsWith (js ''</script>'' @ ys) tagA" for ys
    by (simp add: startsWith_def tagA_def)
  have "indexOfFrom (js ''<script>\<newline>'' @ (c @ js ''</script>'' @ tagA @ r)) tagA 0
        = indexOfFrom (js ''script>\<newline>'' @ (c @ js ''</script>'' @ tagA @ r)) tagA (Suc 0)"
    using o[of "c @ js ''</script>'' @ tagA @ r"] by simp
  also have "\<dots> = indexOfFrom (c @ js ''</script>'' @ tagA @ r) tagA (Suc 0 + length (js ''script>\<newline>''))"
    by (rule indexOfFrom_skip) (simp_all add: p)
  also have "\<dots> = indexOfFrom (js ''</script>'' @ tagA @ r) tagA
                     (Suc 0 + length (js ''script>\<newline>'') + length c)"
    by (rule indexOfFrom_skip) (use assms in \<open>simp_all add: p\<close>)
  also have "\<dots> = indexOfFrom (js ''/script>'' @ tagA @ r) tagA
                     (Suc (Suc 0 + length (js ''script>\<newline>'') + length c))"
    using cl[of "tagA @ r"] by simp
  also have "\<dots> = indexOfFrom (tagA @ r) tagA
                     (Suc (Suc 0 + length (js ''script>\<newline>'') + length c) + length (js ''/script>''))"
    by (rule indexOfFrom_skip) (simp_all add: p)
  also have "\<dots> = Some (Suc (Suc 0 + length (js ''script>\<newline>'') + length c) + length (js ''/script>''))"
    by (rule indexOfFrom_tagA_first)
  also have "Suc (Suc 0 + length (js ''script>\<newline>'') + length c) + length (js ''/script>'')
             = length (inlineScriptTag c)"
    by (simp add: inlineScriptTag_def)
  finally have "indexOfFrom (js ''<script>\<newline>'' @ (c @ js ''</script>'' @ tagA @ r)) tagA 0
                = Some (length (inlineScriptTag c))" .
  moreover have "inlineScriptTag c @ tagA @ r = js ''<script>\<newline>'' @ (c @ js ''</script>'' @ tagA @ r)"
    unfolding inlineScriptTag_def by (simp only: append_assoc)
  ultimately show ?thesis unfolding indexOf_def by simp
qed

lemma length_inline: "length (inlineScriptTag c) = length c + 18"
  by (simp add: inlineScriptTag_def)

lemma default_global: "global defaultScriptTagPattern"
  by (simp add: defaultScriptTagPattern_def)

lemma drop_inline:
  assumes "j \<le> length c + 9"
  shows "drop (j + 9) (inlineScriptTag c @ ys) = drop j (c @ js ''</script>'') @ ys"
proof -
  have e: "inlineScriptTag c @ ys = js ''<script>\<newline>'' @ ((c @ js ''</script>'') @ ys)"
    by (simp add: inlineScriptTag_def)
  have "drop (j + 9) (js ''<script>\<newline>'' @ ((c @ js ''</script>'') @ ys))
        = drop j (drop 9 (js ''<script>\<newline>'' @ ((c @ js ''</script>'') @ ys)))"
    by (simp only: drop_drop)
  also have "drop 9 (js ''<script>\<newline>'' @ ((c @ js ''</script>'') @ ys)) = (c @ js ''</script>'') @ ys"
    by simp
  also have "drop j ((c @ js ''</script>'') @ ys) = drop j (c @ js ''</script>'') @ ys"
  proof -
    have z: "j - length (c @ js ''</script>'') = 0" using assms by simp
    show ?thesis unfolding drop_append z by (simp only: drop_0)
  qed
  finally show ?thesis unfolding e .
qed

lemma exec_first:
  "exec defaultScriptTagPattern (tagA @ r) 0 = (Some (tagA, Some (js ''a.js'')), 35)"
  by (simp add: exec_def default_global search_tagA length_tagA)

lemma exec_second_found:
  assumes "of_char CHR ''<'' \<notin> set c" and "17 \<le> length c"
  shows "exec defaultScriptTagPattern (inlineScriptTag c @ tagA) 35
         = (Some (tagA, Some (js ''a.js'')), length c + 53)"
proof -
  have d: "drop 35 (inlineScriptTag c @ tagA) = drop 26 (c @ js ''</script>'') @ tagA"
    using drop_inline[of 26 c tagA] assms(2) by simp
  have "search (items defaultScriptTagPattern) (drop 26 (c @ js ''</script>'') @ (tagA @ [])) 35
        = search (items defaultScriptTagPattern) (tagA @ []) (35 + (length c + 9 - 26))"
    by (rule search_drop_close[OF assms(1)])
  also have "\<dots> = Some (35 + (length c + 9 - 26), 35, Some (js ''a.js''))"
    by (rule search_tagA)
  also have "35 + (length c + 9 - 26) = length c + 18" using assms(2) by simp
  finally have s: "search (items defaultScriptTagPattern) (drop 35 (inlineScriptTag c @ tagA)) 35
        = Some (length c + 18, 35, Some (js ''a.js''))"
    unfolding d by simp
  have t: "take 35 (drop (length c + 18) (inlineScriptTag c @ tagA)) = tagA"
    by (simp add: length_inline length_tagA)
  show ?thesis
    unfolding exec_def using s t by (simp add: default_global length_inline length_tagA)
qed

lemma exec_second_missed:
  assumes "length c < 17"
  shows "exec defaultScriptTagPattern (inlineScriptTag c @ tagA) 35 = (None, 0)"
proof -
  have "drop 35 (inlineScriptTag c @ tagA) = drop (35 - (length c + 18)) tagA"
    using assms by (simp add: length_inline)
  also have "35 - (length c + 18) = Suc (16 - length c)" using assms by simp
  finally have "search (items defaultScriptTagPattern) (drop 35 (inlineScriptTag c @ tagA)) 35 = None"
    by (simp only: search_drop_tagA)
  then show ?thesis
    unfolding exec_def by (simp add: default_global length_inline length_tagA)
qed

lemma exec_third:
  assumes "of_char CHR ''<'' \<notin> set c" and "17 \<le> length c"
  shows "exec defaultScriptTagPattern (inlineScriptTag c @ inlineScriptTag c) (length c + 53) = (None, 0)"
proof -
  have "drop (length c + 53) (inlineScriptTag c @ inlineScriptTag c)
        = drop 35 (inlineScriptTag c @ [])"
    by (simp add: length_inline)
  also have "\<dots> = drop 26 (c @ js ''</script>'') @ []"
    using drop_inline[of 26 c "[]"] assms(2) by simp
  finally have d: "drop (length c + 53) (inlineScriptTag c @ inlineScriptTag c)
        = drop 26 (c @ js ''</script>'') @ []" .
  have "search (items defaultScriptTagPattern) (drop 26 (c @ js ''</script>'') @ []) (length c + 53)
        = search (items defaultScriptTagPattern) [] (length c + 53 + (length c + 9 - 26))"
    by (rule search_drop_close[OF assms(1)])
  also have "\<dots> = None" by (rule search_nil)
  finally have "search (items defaultScriptTagPattern)
       (drop (length c + 53) (inlineScriptTag c @ inlineScriptTag c)) (length c + 53) = None"
    unfolding d .
  then show ?thesis
    unfolding exec_def using assms(2) by (simp add: default_global length_inline)
qed

lemma handle_tagA:
  "handleMatch projHost defaultOptions None (projFs d c) (js ''/proj/dist/index.html'')
     (js ''/proj/dist'') tagA (js ''a.js'') st
   = st\<lparr>htmlContent := replace (htmlContent st) tagA (inlineScriptTag c),
        modified := True,
        trace := trace st @ [LogInlined (js ''a.js'')]\<rparr>"
  by (simp add: handleMatch_def skipped_def inlineScript_def resolveSource_def minifyIfEnabled_def
      includesStr_def indexOf_def startsWith_def defaultOptions_def existsSync_def readFileSync_def
      projHost_def posixHost_def posixResolve_def normalizeAbs_def posixDirname_def fsOf_def
      projFs_def tagA_def Let_def)

lemma replace_first_tag:
  assumes "of_char CHR ''$'' \<notin> set c"
  shows "replace (tagA @ r) tagA (inlineScriptTag c) = inlineScriptTag c @ r"
  using replace_plain[OF indexOf_tagA_first[of r] inlineScriptTag_plain[OF assms]]
  by (simp add: length_tagA)

lemma replace_second_tag:
  assumes "of_char CHR ''$'' \<notin> set c" and "of_char CHR ''<'' \<notin> set c"
  shows "replace (inlineScriptTag c @ tagA) tagA (inlineScriptTag c)
         = inlineScriptTag c @ inlineScriptTag c"
  using replace_plain[OF indexOf_tagA_after_inline[OF assms(2), of "[]"] inlineScriptTag_plain[OF assms(1)]]
  by (simp add: length_tagA)

lemma loop_two_tags:
  assumes "of_char CHR ''<'' \<notin> set c" and "of_char CHR ''$'' \<notin> set c"
  shows "processScriptTags (Suc (Suc (Suc 0))) projHost defaultOptions None (projFs d c)
           (js ''/proj/dist/index.html'') (js ''/proj/dist'')
           \<lparr>htmlContent = tagA @ tagA, modified = False, lastIndex = 0, trace = tr\<rparr>
         = Returned
             (if length c < 17
              then \<lparr>htmlContent = inlineScriptTag c @ tagA, modified = True, lastIndex = 0,
                    trace = tr @ [LogInlined (js ''a.js'')]\<rparr>
              else \<lparr>htmlContent = inlineScriptTag c @ inlineScriptTag c, modified = True, lastIndex = 0,
                    trace = tr @ [LogInlined (js ''a.js''), LogInlined (js ''a.js'')]\<rparr>)"
proof -
  have p: "scriptTagPattern defaultOptions = defaultScriptTagPattern"
    by (simp add: defaultOptions_def)
  show ?thesis
  proof (cases "length c < 17")
    case True
    show ?thesis
      using True exec_first[of tagA] exec_second_missed[OF True] replace_first_tag[OF assms(2), of tagA]
      by (simp add: p handle_tagA[simplified])
  next
    case False
    then have l: "17 \<le> length c" by simp
    show ?thesis
      using False exec_first[of tagA] exec_second_found[OF assms(1) l] exec_third[OF assms(1) l]
        replace_first_tag[OF assms(2), of tagA] replace_second_tag[OF assms(2,1)]
      by (simp add: p handle_tagA[simplified])
  qed
qed

subsection \<open>The example project\<close>

lemma default_pattern: "scriptTagPattern defaultOptions = defaultScriptTagPattern"
  by (simp add: defaultOptions_def)

lemma proj_dist: "path_resolve projHost [cwd projHost, js ''dist''] = distPath"
  by (simp add: projHost_def posixHost_def posixResolve_def normalizeAbs_def distPath_def)

lemma proj_exists: "existsSync (projFs d c) distPath"
  by (simp add: existsSync_def projFs_def fsOf_def distPath_def)

lemma proj_find:
  "findHtmlFiles (Suc (Suc (Suc 0))) projHost (projFs d c) distPath [] = Returned [indexHtml]"
  by (simp add: readdirSync_def projFs_def fsOf_def distPath_def indexHtml_def projHost_def
      posixHost_def posixJoin_def normalizeAbs_def endsWith_def Let_def)

lemma proj_read: "readFileSync (projFs d c) indexHtml = Some d"
  by (simp add: readFileSync_def projFs_def fsOf_def indexHtml_def)

lemma proj_relative: "path_relative projHost distPath indexHtml = js ''index.html''"
  by (simp add: projHost_def posixHost_def posixRelative_def distPath_def indexHtml_def)

lemma proj_write: "writeFileSync (projFs d c) indexHtml t = Some (projFs t c)"
  by (auto simp: writeFileSync_def projFs_def fsOf_def indexHtml_def fun_eq_iff)

lemma handle_tagA_proj:
  "handleMatch projHost defaultOptions None (projFs d c) indexHtml distPath tagA (js ''a.js'') st
   = st\<lparr>htmlContent := replace (htmlContent st) tagA (inlineScriptTag c),
        modified := True,
        trace := trace st @ [LogInlined (js ''a.js'')]\<rparr>"
  unfolding indexHtml_def distPath_def by (rule handle_tagA)

lemma loop_two_tags_proj:
  assumes "of_char CHR ''<'' \<notin> set c" and "of_char CHR ''$'' \<notin> set c"
  shows "processScriptTags (Suc (Suc (Suc 0))) projHost defaultOptions None (projFs d c)
           indexHtml distPath
           \<lparr>htmlContent = tagA @ tagA, modified = False, lastIndex = 0, trace = tr\<rparr>
         = Returned
             (if length c < 17
              then \<lparr>htmlContent = inlineScriptTag c @ tagA, modified = True, lastIndex = 0,
                    trace = tr @ [LogInlined (js ''a.js'')]\<rparr>
              else \<lparr>htmlContent = inlineScriptTag c @ inlineScriptTag c, modified = True, lastIndex = 0,
                    trace = tr @ [LogInlined (js ''a.js''), LogInlined (js ''a.js'')]\<rparr>)"
  unfolding indexHtml_def distPath_def by (rule loop_two_tags[OF assms])

lemma processFile_two_tags:
  assumes "of_char CHR ''<'' \<notin> set c" and "of_char CHR ''$'' \<notin> set c"
  shows "processFile (Suc (Suc (Suc 0))) projHost defaultOptions None distPath indexHtml
           (projFs (tagA @ tagA) c, tr)
         = Some
             (if length c < 17
              then (projFs (inlineScriptTag c @ tagA) c,
                    tr @ [LogProcessing (js ''index.html''), LogInlined (js ''a.js''),
                          WriteFile indexHtml (inlineScriptTag c @ tagA),
                          LogUpdated (js ''index.html'')])
              else (projFs (inlineScriptTag c @ inlineScriptTag c) c,
                    tr @ [LogProcessing (js ''index.html''), LogInlined (js ''a.js''),
                          LogInlined (js ''a.js''),
                          WriteFile indexHtml (inlineScriptTag c @ inlineScriptTag c),
                          LogUpdated (js ''index.html'')]))"
  unfolding processFile_def
  by (simp add: proj_read proj_relative[simplified] loop_two_tags_proj[OF assms] proj_write
      del: processScriptTags.simps)

lemma run_two_tags:
  assumes "of_char CHR ''<'' \<notin> set c" and "of_char CHR ''$'' \<notin> set c"
  shows "closeBundle (Suc (Suc (Suc 0))) projHost defaultOptions (projFs (tagA @ tagA) c)
         = Returned
             (if length c < 17
              then (projFs (inlineScriptTag c @ tagA) c,
                    [LogLooking, LogFound 1, LogProcessing (js ''index.html''), LogInlined (js ''a.js''),
                     WriteFile indexHtml (inlineScriptTag c @ tagA),
                     LogUpdated (js ''index.html''), LogCompleted])
              else (projFs (inlineScriptTag c @ inlineScriptTag c) c,
                    [LogLooking, LogFound 1, LogProcessing (js ''index.html''), LogInlined (js ''a.js''),
                     LogInlined (js ''a.js''),
                     WriteFile indexHtml (inlineScriptTag c @ inlineScriptTag c),
                     LogUpdated (js ''index.html''), LogCompleted]))"
proof -
  have l: "loadTerser projHost defaultOptions = (None, [])"
    by (simp add: loadTerser_def defaultOptions_def)
  show ?thesis
    unfolding closeBundle_def l
    by (simp add: proj_dist[simplified] proj_exists proj_find processFile_two_tags[OF assms]
        del: findHtmlFiles.simps)
qed

subsection \<open>A second pass over a document whose first tag is already inlined\<close>

lemma exec_after_inline:
  assumes "of_char CHR ''<'' \<notin> set c"
  shows "exec defaultScriptTagPattern (inlineScriptTag c @ tagA) 0
         = (Some (tagA, Some (js ''a.js'')), length c + 53)"
proof -
  have "search (items defaultScriptTagPattern) (inlineScriptTag c @ (tagA @ [])) 0
        = search (items defaultScriptTagPattern) (tagA @ []) (0 + length (inlineScriptTag c))"
    by (rule search_inline[OF assms])
  also have "\<dots> = Some (0 + length (inlineScriptTag c), 35, Some (js ''a.js''))"
    by (rule search_tagA)
  finally have s: "search (items defaultScriptTagPattern) (inlineScriptTag c @ tagA) 0
        = Some (length c + 18, 35, Some (js ''a.js''))"
    by (simp add: length_inline)
  have t: "take 35 (drop (length c + 18) (inlineScriptTag c @ tagA)) = tagA"
    by (simp add: length_inline length_tagA)
  show ?thesis unfolding exec_def using s t by (simp add: default_global)
qed

lemma exec_past_end:
  assumes "length c < 17"
  shows "exec defaultScriptTagPattern (inlineScriptTag c @ inlineScriptTag c) (length c + 53) = (None, 0)"
  unfolding exec_def using assms by (simp add: default_global length_inline)

lemma loop_second_pass:
  assumes "of_char CHR ''<'' \<notin> set c" and "of_char CHR ''$'' \<notin> set c" and "length c < 17"
  shows "processScriptTags (Suc (Suc (Suc 0))) projHost defaultOptions None (projFs d c)
           indexHtml distPath
           \<lparr>htmlContent = inlineScriptTag c @ tagA, modified = False, lastIndex = 0, trace = tr\<rparr>
         = Returned \<lparr>htmlContent = inlineScriptTag c @ inlineScriptTag c, modified = True,
                     lastIndex = 0, trace = tr @ [LogInlined (js ''a.js'')]\<rparr>"
  using exec_after_inline[OF assms(1)] exec_past_end[OF assms(3)] replace_second_tag[OF assms(2,1)]
  by (simp add: default_pattern handle_tagA_proj[simplified])

lemma run_second_pass:
  assumes "of_char CHR ''<'' \<notin> set c" and "of_char CHR ''$'' \<notin> set c" and "length c < 17"
  shows "closeBundle (Suc (Suc (Suc 0))) projHost defaultOptions (projFs (inlineScriptTag c @ tagA) c)
         = Returned
             (projFs (inlineScriptTag c @ inlineScriptTag c) c,
              [LogLooking, LogFound 1, LogProcessing (js ''index.html''), LogInlined (js ''a.js''),
               WriteFile indexHtml (inlineScriptTag c @ inlineScriptTag c),
               LogUpdated (js ''index.html''), LogCompleted])"
proof -
  have l: "loadTerser projHost defaultOptions = (None, [])"
    by (simp add: loadTerser_def defaultOptions_def)
  have p: "processFile (Suc (Suc (Suc 0))) projHost defaultOptions None distPath indexHtml
             (projFs (inlineScriptTag c @ tagA) c, tr)
           = Some (projFs (inlineScriptTag c @ inlineScriptTag c) c,
                   tr @ [LogProcessing (js ''index.html''), LogInlined (js ''a.js''),
                         WriteFile indexHtml (inlineScriptTag c @ inlineScriptTag c),
                         LogUpdated (js ''index.html'')])" for tr
    unfolding processFile_def
    by (simp add: proj_read proj_relative[simplified] loop_second_pass[OF assms] proj_write
        del: processScriptTags.simps)
  show ?thesis
    unfolding closeBundle_def l
    by (simp add: proj_dist[simplified] proj_exists proj_find p del: findHtmlFiles.simps)
qed

subsection \<open>A failed load of the minifier\<close>

lemma failed_load_unminified:
  assumes "minify opts" and "import_terser h = None"
  shows "closeBundle n h opts fs =
           map_outcome (\<lambda>(fs', tr). (fs', LogLooking # ImportTerser # WarnTerserMissing # WarnContinuing # tl tr))
             (closeBundle n h (opts\<lparr>minify := False\<rparr>) fs)"
proof -
  let ?distDir = "path_resolve h [cwd h, js ''dist'']"
  let ?load = "[ImportTerser, WarnTerserMissing, WarnContinuing]"
  have l1: "loadTerser h opts = (None, ?load)" using assms by (simp add: loadTerser_def)
  have l2: "loadTerser h (opts\<lparr>minify := False\<rparr>) = (None, [])" by (simp add: loadTerser_def)
  show "closeBundle n h opts fs =
           map_outcome (\<lambda>(fs', tr). (fs', LogLooking # ImportTerser # WarnTerserMissing # WarnContinuing # tl tr))
             (closeBundle n h (opts\<lparr>minify := False\<rparr>) fs)"
  proof (cases "existsSync fs ?distDir")
    case False
    then show ?thesis by (simp add: closeBundle_def l1 l2)
  next
    case True
    show ?thesis
    proof (cases "findHtmlFiles n h fs ?distDir []")
      case OutOfFuel
      with True show ?thesis by (simp add: closeBundle_def l1 l2)
    next
      case (Thrown x)
      with True show ?thesis by (simp add: closeBundle_def l1 l2)
    next
      case (Returned htmlFiles)
      let ?r = "processFiles n h (opts\<lparr>minify := False\<rparr>) None ?distDir htmlFiles
                  (fs, [LogFound (length htmlFiles)])"
      have a: "processFiles n h opts None ?distDir htmlFiles
                 (fs, (LogLooking # ?load) @ [LogFound (length htmlFiles)])
               = map_option (\<lambda>(fs', t). (fs', (LogLooking # ?load) @ t)) ?r"
        using processFiles_shift[of n h opts None ?distDir htmlFiles fs "LogLooking # ?load"
            "[LogFound (length htmlFiles)]"]
        by (simp add: processFiles_minify_off[symmetric])
      have b: "processFiles n h (opts\<lparr>minify := False\<rparr>) None ?distDir htmlFiles
                 (fs, [LogLooking] @ [LogFound (length htmlFiles)])
               = map_option (\<lambda>(fs', t). (fs', [LogLooking] @ t)) ?r"
        using processFiles_shift[of n h "opts\<lparr>minify := False\<rparr>" None ?distDir htmlFiles fs "[LogLooking]"
            "[LogFound (length htmlFiles)]"] by simp
      show ?thesis using True Returned a b
        by (cases ?r) (auto simp: closeBundle_def l1 l2)
    qed
  qed
qed

lemma failed_load_events:
  assumes "minify opts" and "import_terser h = None"
    and "closeBundle n h opts fs = Returned (fs', tr)"
  shows "filter isMinifierEvent tr = [ImportTerser, WarnTerserMissing, WarnContinuing]"
  using closeBundle_events[OF assms(3)] assms(1,2)
  by (auto simp: loadTerser_def isMinifierEvent_def)

subsection \<open>A match is a part of the text\<close>

lemma match_is_substring:
  assumes "exec re s li = (Some (fullMatch, g), li')"
  shows "includesStr s fullMatch"
proof -
  from exec_Some[OF assms] obtain j n where f: "fullMatch = take n (drop j s)" by blast
  have "s = take j s @ take n (drop j s) @ drop n (drop j s)"
    by (simp only: append_take_drop_id)
  then show ?thesis unfolding includesStr_iff f by blast
qed






subsection \<open>A script that shows its own tag\<close>













subsection \<open>Texts in which a given text does not occur\<close>











subsection \<open>The default pattern on texts without the start of a script tag\<close>







subsection \<open>The default pattern on a script tag\<close>

lemma firstSome_head:
  assumes "lo \<le> m" and "f m = Some y"
  shows "firstSome f (rev [lo ..< Suc m]) = Some y"
  using assms by simp


lemma takeWhile_stop:
  assumes "\<And>x. x \<in> set u \<Longrightarrow> P x" and "\<not> P y"
  shows "takeWhile P (u @ y # w) = u"
  using assms by (simp add: takeWhile_append2)













subsection \<open>Two tags of one script in a document\<close>



















lemma http_skipped:
  "startsWith srcPath (js ''http'') \<Longrightarrow>
   handleMatch h opts terserModule fs htmlFile distDir fullMatch srcPath st = st"
  by (simp add: handleMatch_def skipped_def)

section \<open>The claims\<close>

subsection \<open>C1: which matches are inlined\<close>

text \<open>
  Claim C1. A match is a candidate for inlining if and only if its source path is not
  protocol-prefixed and either the tag text carries the marker \<^verbatim>\<open>inline\<close> or \<^verbatim>\<open>inlineAll\<close> is
  set. The code, under the comment \<^verbatim>\<open>Skip external scripts or scripts without the "inline"
  attribute\<close>, takes \<^verbatim>\<open>srcPath.startsWith("http")\<close> for the first condition, and that also
  holds for a script of the project itself whose file name begins with these letters. The
  document with the tag \<^verbatim>\<open><script src="http-client.js" inline></script>\<close> names no other
  host and carries the marker, and the file is in the output directory beside it; the run
  leaves the tag alone all the same: nothing is inlined, no warning is given, and the
  document is not written.
\<close>

theorem local_http_name_skipped:
  "readFileSync localHttpFs (js ''/proj/dist/http-client.js'') = Some (js ''fetchAll();'')
   \<and> includesStr localHttpTag (js ''inline'')
   \<and> closeBundle (Suc (Suc 0)) projHost defaultOptions localHttpFs
     = Returned (localHttpFs,
         [LogLooking, LogFound 1, LogProcessing (js ''index.html''),
          LogNoScripts (js ''index.html''), LogCompleted])"
  by (simp add: closeBundle_def loadTerser_def processFile_def handleMatch_def skipped_def
      indexOf_def includesStr_def startsWith_def endsWith_def
      exec_def defaultScriptTagPattern_def quotes_def isSpace_def defaultOptions_def
      existsSync_def readFileSync_def readdirSync_def
      projHost_def posixHost_def posixResolve_def normalizeAbs_def posixDirname_def posixJoin_def
      posixRelative_def fsOf_def localHttpFs_def localHttpTag_def Let_def)

subsection \<open>C2: scripts of other hosts\<close>

text \<open>
  Claim C2. A script reference whose source path is protocol-prefixed (a URL scheme such as
  \<^verbatim>\<open>http://\<close>, \<^verbatim>\<open>https://\<close>, \<^verbatim>\<open>ftp://\<close>, or a protocol-relative \<^verbatim>\<open>//\<close>) is never inlined, for
  every configuration. The code only tests \<^verbatim>\<open>srcPath.startsWith("http")\<close>: with \<^verbatim>\<open>inlineAll\<close>
  set, the reference \<^verbatim>\<open>//cdn.example.com/lib.js\<close> is resolved as the path
  \<^verbatim>\<open>/cdn.example.com/lib.js\<close> of the build machine, and where that file exists its text
  replaces the tag.
\<close>

theorem protocol_relative_inlined:
  "textAfter (closeBundle (Suc (Suc 0)) projHost (defaultOptions\<lparr>inlineAll := True\<rparr>) cdnFs) indexHtml
   = Some (inlineScriptTag (js ''lib();''))"
  by (simp add: closeBundle_def loadTerser_def processFile_def handleMatch_def skipped_def
      inlineScript_def resolveSource_def minifyIfEnabled_def inlineScriptTag_def
      replace_def indexOf_def includesStr_def startsWith_def endsWith_def
      exec_def defaultScriptTagPattern_def quotes_def isSpace_def defaultOptions_def
      existsSync_def readFileSync_def readdirSync_def writeFileSync_def
      projHost_def posixHost_def posixResolve_def normalizeAbs_def posixDirname_def posixJoin_def
      posixRelative_def fsOf_def cdnFs_def cdnTag_def indexHtml_def textAfter_def Let_def)

subsection \<open>C3: the order of the search\<close>

text \<open>
  Claim C3. The search for the file of a script tries, in this order, the path against the
  directory of the document, against the output root, against the working directory, and
  for each extra source directory in listed order the path without a leading \<^verbatim>\<open>./\<close>
  against that directory; it returns the first that exists and asks about no further one.
  In particular a file beside the document wins over one in a source directory.
\<close>

theorem resolution_order:
  "resolveSource h opts fs htmlFile distDir srcPath =
     (case List.find (existsSync fs) (candidatePaths h opts htmlFile distDir srcPath) of
        Some p \<Rightarrow> (p, True, takeWhile (\<lambda>q. \<not> existsSync fs q) (candidatePaths h opts htmlFile distDir srcPath) @ [p])
      | None \<Rightarrow> (path_resolve h [cwd h, srcPath], False, candidatePaths h opts htmlFile distDir srcPath))
   \<and> (existsSync fs (path_resolve h [path_dirname h htmlFile, srcPath]) \<longrightarrow>
        resolveSource h opts fs htmlFile distDir srcPath
        = (path_resolve h [path_dirname h htmlFile, srcPath], True,
           [path_resolve h [path_dirname h htmlFile, srcPath]]))"
  by (simp add: resolveSource_find candidatePaths_def)

theorem resolution_order_witness:
  "existsSync twoCopiesFs (path_resolve projHost [path_dirname projHost indexHtml, js ''a.js''])
   \<and> existsSync twoCopiesFs (path_resolve projHost [cwd projHost, js ''src'', stripDotSlash (js ''a.js'')])
   \<and> resolveSource projHost defaultOptions twoCopiesFs indexHtml distPath (js ''a.js'')
     = (path_resolve projHost [path_dirname projHost indexHtml, js ''a.js''], True,
        [path_resolve projHost [path_dirname projHost indexHtml, js ''a.js'']])
   \<and> path_resolve projHost [path_dirname projHost indexHtml, js ''a.js''] = js ''/proj/dist/a.js''"
proof -
  have p: "path_resolve projHost [path_dirname projHost indexHtml, js ''a.js''] = js ''/proj/dist/a.js''"
    by (simp add: projHost_def posixHost_def posixResolve_def posixDirname_def normalizeAbs_def indexHtml_def)
  have h: "existsSync twoCopiesFs (path_resolve projHost [path_dirname projHost indexHtml, js ''a.js''])"
    unfolding p by (simp add: existsSync_def twoCopiesFs_def fsOf_def)
  have s: "existsSync twoCopiesFs (path_resolve projHost [cwd projHost, js ''src'', stripDotSlash (js ''a.js'')])"
    by (simp add: projHost_def posixHost_def posixResolve_def normalizeAbs_def stripDotSlash_def
        startsWith_def existsSync_def twoCopiesFs_def fsOf_def)
  from resolution_order[of projHost defaultOptions twoCopiesFs indexHtml distPath "js ''a.js''"] h
  have "resolveSource projHost defaultOptions twoCopiesFs indexHtml distPath (js ''a.js'')
     = (path_resolve projHost [path_dirname projHost indexHtml, js ''a.js''], True,
        [path_resolve projHost [path_dirname projHost indexHtml, js ''a.js'']])"
    by blast
  with h s p show ?thesis by blast
qed

subsection \<open>C4: a script that is nowhere\<close>

text \<open>
  Claim C4. For a candidate reference whose file exists at none of the candidate locations
  nothing fails: the document and the flag stay as they are, a warning names the source
  path, a second one announces the attempted paths, and one numbered warning follows for
  each candidate location in the order of the search (the three fixed ones and one per
  extra source directory); then the loop goes on with the next match.
\<close>

theorem unresolved_nonfatal:
  assumes "exec (scriptTagPattern opts) (htmlContent st) (lastIndex st) = (Some (fullMatch, Some srcPath), li)"
    and "\<not> skipped opts fullMatch srcPath"
    and "\<forall>p \<in> set (candidatePaths h opts htmlFile distDir srcPath). \<not> existsSync fs p"
  shows "processScriptTags (Suc n) h opts terserModule fs htmlFile distDir st =
         processScriptTags n h opts terserModule fs htmlFile distDir
           (st\<lparr>lastIndex := li,
               trace := trace st @ [WarnCouldNotFind srcPath, WarnAttemptedPaths]
                 @ map (\<lambda>(i, p). WarnAttempt (Suc i) p)
                     (enumerate 0 (candidatePaths h opts htmlFile distDir srcPath))\<rparr>)"
  using assms(1,2)
  by (simp add: handleMatch_def inlineScript_def resolveSource_find find_None_all[OF assms(3)]
      attemptedPaths_candidates)

theorem unresolved_nonfatal_witness:
  "exec (scriptTagPattern defaultOptions) (htmlContent (startState tagB)) (lastIndex (startState tagB))
     = (Some (tagB, Some (js ''b.js'')), 35)
   \<and> \<not> skipped defaultOptions tagB (js ''b.js'')
   \<and> candidatePaths projHost defaultOptions indexHtml distPath (js ''b.js'')
     = [js ''/proj/dist/b.js'', js ''/proj/dist/b.js'', js ''/proj/b.js'', js ''/proj/src/b.js'',
        js ''/proj/public/b.js'']
   \<and> list_all (\<lambda>p. \<not> existsSync (projFs tagB (js ''x=1;'')) p)
         (candidatePaths projHost defaultOptions indexHtml distPath (js ''b.js''))
   \<and> processScriptTags (Suc (Suc 0)) projHost defaultOptions None (projFs tagB (js ''x=1;''))
       indexHtml distPath (startState tagB)
     = Returned \<lparr>htmlContent = tagB, modified = False, lastIndex = 0,
         trace = [WarnCouldNotFind (js ''b.js''), WarnAttemptedPaths,
                  WarnAttempt 1 (js ''/proj/dist/b.js''), WarnAttempt 2 (js ''/proj/dist/b.js''),
                  WarnAttempt 3 (js ''/proj/b.js''), WarnAttempt 4 (js ''/proj/src/b.js''),
                  WarnAttempt 5 (js ''/proj/public/b.js'')]\<rparr>"
proof -
  have e: "exec (scriptTagPattern defaultOptions) (htmlContent (startState tagB)) (lastIndex (startState tagB))
     = (Some (tagB, Some (js ''b.js'')), 35)"
    by (simp add: defaultOptions_def startState_def exec_def defaultScriptTagPattern_def
        startsWith_def quotes_def isSpace_def tagB_def)
  have k: "\<not> skipped defaultOptions tagB (js ''b.js'')"
    by (simp add: skipped_def includesStr_def indexOf_def startsWith_def tagB_def defaultOptions_def)
  have c: "candidatePaths projHost defaultOptions indexHtml distPath (js ''b.js'')
     = [js ''/proj/dist/b.js'', js ''/proj/dist/b.js'', js ''/proj/b.js'', js ''/proj/src/b.js'',
        js ''/proj/public/b.js'']"
    by (simp add: candidatePaths_def projHost_def posixHost_def posixResolve_def posixDirname_def
        normalizeAbs_def stripDotSlash_def startsWith_def defaultOptions_def indexHtml_def distPath_def)
  have a: "\<forall>p \<in> set (candidatePaths projHost defaultOptions indexHtml distPath (js ''b.js'')).
         \<not> existsSync (projFs tagB (js ''x=1;'')) p"
    unfolding c by (simp add: existsSync_def projFs_def fsOf_def)
  have x: "exec (scriptTagPattern defaultOptions) tagB 35 = (None, 0)"
    by (simp add: defaultOptions_def exec_def defaultScriptTagPattern_def startsWith_def tagB_def)
  from unresolved_nonfatal[OF e k a, of "Suc 0" None]
  have "processScriptTags (Suc (Suc 0)) projHost defaultOptions None (projFs tagB (js ''x=1;''))
       indexHtml distPath (startState tagB)
     = processScriptTags (Suc 0) projHost defaultOptions None (projFs tagB (js ''x=1;''))
         indexHtml distPath
         ((startState tagB)\<lparr>lastIndex := 35,
            trace := trace (startState tagB) @ [WarnCouldNotFind (js ''b.js''), WarnAttemptedPaths]
              @ map (\<lambda>(i, p). WarnAttempt (Suc i) p)
                  (enumerate 0 (candidatePaths projHost defaultOptions indexHtml distPath (js ''b.js'')))\<rparr>)" .
  also have "\<dots> = Returned \<lparr>htmlContent = tagB, modified = False, lastIndex = 0,
         trace = [WarnCouldNotFind (js ''b.js''), WarnAttemptedPaths,
                  WarnAttempt 1 (js ''/proj/dist/b.js''), WarnAttempt 2 (js ''/proj/dist/b.js''),
                  WarnAttempt 3 (js ''/proj/b.js''), WarnAttempt 4 (js ''/proj/src/b.js''),
                  WarnAttempt 5 (js ''/proj/public/b.js'')]\<rparr>"
    unfolding c using x by (simp add: startState_def)
  finally show ?thesis using e k c a by (simp only: list_all_iff) blast
qed

subsection \<open>C5: when a document is written\<close>


subsection \<open>C6: a minifier that cannot be loaded\<close>

text \<open>
  Claim C6, as amended. In a run that returns, the import of the minifier is attempted once
  when \<^verbatim>\<open>minify\<close> is set and never otherwise. When the import fails, \<^verbatim>\<open>console.warn\<close> is
  called twice at that point (that Terser is not installed, and that the run continues
  without minification); these two warnings and the import are the only events of the
  minifier in the whole run, so no script is minified and nothing is tried again; and
  the run is, but for these three events, the run with \<^verbatim>\<open>minify\<close> off: every file gets
  every script inlined with the text that \<^verbatim>\<open>transformContent\<close> gave.
\<close>

theorem minifier_load:
  "(closeBundle n h opts fs = Returned (fs', tr) \<longrightarrow>
      length (filter (\<lambda>e. e = ImportTerser) tr) = (if minify opts then 1 else 0))
   \<and> (minify opts \<and> import_terser h = None \<longrightarrow>
        (closeBundle n h opts fs = Returned (fs', tr) \<longrightarrow>
           filter isMinifierEvent tr = [ImportTerser, WarnTerserMissing, WarnContinuing])
        \<and> closeBundle n h opts fs =
            map_outcome (\<lambda>(fs', tr). (fs', LogLooking # ImportTerser # WarnTerserMissing # WarnContinuing # tl tr))
              (closeBundle n h (opts\<lparr>minify := False\<rparr>) fs))"
proof (intro conjI impI)
  assume r: "closeBundle n h opts fs = Returned (fs', tr)"
  from closeBundle_events[OF r] obtain ev where
    "tr = LogLooking # snd (loadTerser h opts) @ ev" "filter (\<lambda>e. e = ImportTerser) ev = []"
    by blast
  then show "length (filter (\<lambda>e. e = ImportTerser) tr) = (if minify opts then 1 else 0)"
    by (auto simp: loadTerser_def split: option.splits)
next
  assume "minify opts \<and> import_terser h = None" and "closeBundle n h opts fs = Returned (fs', tr)"
  then show "filter isMinifierEvent tr = [ImportTerser, WarnTerserMissing, WarnContinuing]"
    using failed_load_events by blast
next
  assume "minify opts \<and> import_terser h = None"
  then show "closeBundle n h opts fs =
            map_outcome (\<lambda>(fs', tr). (fs', LogLooking # ImportTerser # WarnTerserMissing # WarnContinuing # tl tr))
              (closeBundle n h (opts\<lparr>minify := False\<rparr>) fs)"
    using failed_load_unminified by blast
qed

lemma minify_on_off: "defaultOptions\<lparr>minify := True, minify := False\<rparr> = defaultOptions"
  by (simp add: defaultOptions_def)

lemma failed_load_run:
  "closeBundle (Suc (Suc (Suc 0))) projHost (defaultOptions\<lparr>minify := True\<rparr>)
     (projFs (tagA @ tagA) (js ''x=1;''))
   = Returned (projFs (inlineScriptTag (js ''x=1;'') @ tagA) (js ''x=1;''),
       [LogLooking, ImportTerser, WarnTerserMissing, WarnContinuing, LogFound 1,
        LogProcessing (js ''index.html''), LogInlined (js ''a.js''),
        WriteFile indexHtml (inlineScriptTag (js ''x=1;'') @ tagA),
        LogUpdated (js ''index.html''), LogCompleted])"
proof -
  have m: "minify (defaultOptions\<lparr>minify := True\<rparr>)" by simp
  have i: "import_terser projHost = None" by (simp add: projHost_def posixHost_def)
  show ?thesis
    unfolding failed_load_unminified[OF m i] minify_on_off
    using run_two_tags[of "js ''x=1;''"] by simp
qed

theorem minifier_load_witness:
  "minify (defaultOptions\<lparr>minify := True\<rparr>)
   \<and> import_terser projHost = None
   \<and> closeBundle (Suc (Suc (Suc 0))) projHost (defaultOptions\<lparr>minify := True\<rparr>)
        (projFs (tagA @ tagA) (js ''x=1;''))
     = Returned (projFs (inlineScriptTag (js ''x=1;'') @ tagA) (js ''x=1;''),
         [LogLooking, ImportTerser, WarnTerserMissing, WarnContinuing, LogFound 1,
          LogProcessing (js ''index.html''), LogInlined (js ''a.js''),
          WriteFile indexHtml (inlineScriptTag (js ''x=1;'') @ tagA),
          LogUpdated (js ''index.html''), LogCompleted])
   \<and> length (filter (\<lambda>e. e = ImportTerser)
         [LogLooking, ImportTerser, WarnTerserMissing, WarnContinuing, LogFound 1,
          LogProcessing (js ''index.html''), LogInlined (js ''a.js''),
          WriteFile indexHtml (inlineScriptTag (js ''x=1;'') @ tagA),
          LogUpdated (js ''index.html''), LogCompleted])
     = (if minify (defaultOptions\<lparr>minify := True\<rparr>) then 1 else 0)
   \<and> filter isMinifierEvent
         [LogLooking, ImportTerser, WarnTerserMissing, WarnContinuing, LogFound 1,
          LogProcessing (js ''index.html''), LogInlined (js ''a.js''),
          WriteFile indexHtml (inlineScriptTag (js ''x=1;'') @ tagA),
          LogUpdated (js ''index.html''), LogCompleted]
     = [ImportTerser, WarnTerserMissing, WarnContinuing]
   \<and> closeBundle (Suc (Suc (Suc 0))) projHost (defaultOptions\<lparr>minify := True\<rparr>)
        (projFs (tagA @ tagA) (js ''x=1;''))
     = map_outcome (\<lambda>(fs', tr). (fs', LogLooking # ImportTerser # WarnTerserMissing # WarnContinuing # tl tr))
         (closeBundle (Suc (Suc (Suc 0))) projHost (defaultOptions\<lparr>minify := True\<rparr>\<lparr>minify := False\<rparr>)
            (projFs (tagA @ tagA) (js ''x=1;'')))"
proof -
  have m: "minify (defaultOptions\<lparr>minify := True\<rparr>)" by simp
  have i: "import_terser projHost = None" by (simp add: projHost_def posixHost_def)
  note r = failed_load_run
  from minifier_load[of "Suc (Suc (Suc 0))" projHost "defaultOptions\<lparr>minify := True\<rparr>"
      "projFs (tagA @ tagA) (js ''x=1;'')"
      "projFs (inlineScriptTag (js ''x=1;'') @ tagA) (js ''x=1;'')"
      "[LogLooking, ImportTerser, WarnTerserMissing, WarnContinuing, LogFound 1,
          LogProcessing (js ''index.html''), LogInlined (js ''a.js''),
          WriteFile indexHtml (inlineScriptTag (js ''x=1;'') @ tagA),
          LogUpdated (js ''index.html''), LogCompleted]"] m i r
  show ?thesis by blast
qed

theorem two_warnings:
  "filter isWarn (eventsOf (closeBundle (Suc (Suc (Suc 0))) projHost (defaultOptions\<lparr>minify := True\<rparr>)
      (projFs (tagA @ tagA) (js ''x=1;''))))
   = [WarnTerserMissing, WarnContinuing]
   \<and> length (filter isWarn (eventsOf (closeBundle (Suc (Suc (Suc 0))) projHost (defaultOptions\<lparr>minify := True\<rparr>)
      (projFs (tagA @ tagA) (js ''x=1;''))))) = 2"
  unfolding failed_load_run by (simp add: eventsOf_def isWarn_def)

subsection \<open>C7: two identical tags\<close>




subsection \<open>C8: a second run\<close>

text \<open>
  Claim C8. A second run on the text that a first run produced replaces nothing and leaves
  the text as it is. The loop, which is to process all script tags of the file, goes on
  from the position where the last match ended in the text as it was before the
  replacement; a replacement that makes the text shorter moves the next tag to before that
  position, and the loop passes it over. For the document of two adjacent tags
  \<^verbatim>\<open><script src="a.js" inline></script>\<close> and the script \<^verbatim>\<open>x=1;\<close> the first run inlines the
  first tag only and writes the file with the second tag still in it; the second run
  inlines that tag, so it does replace and the text is another one after it.
\<close>

theorem rerun_changes:
  "textAfter (closeBundle (Suc (Suc (Suc 0))) projHost defaultOptions
      (projFs (tagA @ tagA) (js ''x=1;''))) indexHtml
   = Some (inlineScriptTag (js ''x=1;'') @ tagA)
   \<and> textAfter (secondRun (Suc (Suc (Suc 0))) projHost defaultOptions
        (projFs (tagA @ tagA) (js ''x=1;''))) indexHtml
     = Some (inlineScriptTag (js ''x=1;'') @ inlineScriptTag (js ''x=1;''))
   \<and> filter isInlined (eventsOf (secondRun (Suc (Suc (Suc 0))) projHost defaultOptions
        (projFs (tagA @ tagA) (js ''x=1;''))))
     = [LogInlined (js ''a.js'')]
   \<and> inlineScriptTag (js ''x=1;'') @ tagA \<noteq> inlineScriptTag (js ''x=1;'') @ inlineScriptTag (js ''x=1;'')"
  using run_two_tags[of "js ''x=1;''"] run_second_pass[of "js ''x=1;''"]
  by (simp add: secondRun_def textAfter_def eventsOf_def proj_read isInlined_def
      inlineScriptTag_def tagA_def)

subsection \<open>C9: the marker is a substring\<close>




subsection \<open>C10: the inline element\<close>

text \<open>
  Claim C10. When a script is resolved, read and transformed, and the text to inline (the
  minified one where the minifier gave one) contains no \<^verbatim>\<open>$\<close>, the first occurrence of the
  tag text in the document is replaced by exactly \<^verbatim>\<open><script>\<close>, a line feed, that text and
  \<^verbatim>\<open></script>\<close>; what stands before and after the tag stays. (With a \<^verbatim>\<open>$\<close> in the text,
  \<^verbatim>\<open>String.prototype.replace\<close> may expand it.)
\<close>

theorem inline_element_exact:
  assumes "resolveSource h opts fs htmlFile distDir srcPath = (jsFilePath, True, asked)"
    and "readFileSync fs jsFilePath = Some content"
    and "transformContent opts content srcPath = Some jsContent"
    and "minifyIfEnabled opts terserModule srcPath jsContent = (final, minifyEvents)"
    and "of_char CHR ''$'' \<notin> set final"
    and "indexOf (htmlContent st) fullMatch = Some i"
  shows "htmlContent st = take i (htmlContent st) @ fullMatch @ drop (i + length fullMatch) (htmlContent st)
       \<and> htmlContent (inlineScript h opts terserModule fs htmlFile distDir fullMatch srcPath st)
         = take i (htmlContent st) @ (js ''<script>\<newline>'' @ final @ js ''</script>'')
             @ drop (i + length fullMatch) (htmlContent st)"
proof
  show "htmlContent st = take i (htmlContent st) @ fullMatch @ drop (i + length fullMatch) (htmlContent st)"
    using indexOf_split[OF assms(6)] .
next
  have "replace (htmlContent st) fullMatch (inlineScriptTag final)
        = take i (htmlContent st) @ inlineScriptTag final @ drop (i + length fullMatch) (htmlContent st)"
    using replace_plain[OF assms(6) inlineScriptTag_plain[OF assms(5)]] .
  then show "htmlContent (inlineScript h opts terserModule fs htmlFile distDir fullMatch srcPath st)
         = take i (htmlContent st) @ (js ''<script>\<newline>'' @ final @ js ''</script>'')
             @ drop (i + length fullMatch) (htmlContent st)"
    using assms(1-4) unfolding inlineScript_def inlineScriptTag_def by simp
qed

theorem inline_element_exact_witness:
  "resolveSource projHost defaultOptions (projFs (tagA @ tagA) (js ''x=1;'')) indexHtml distPath (js ''a.js'')
     = (js ''/proj/dist/a.js'', True, [js ''/proj/dist/a.js''])
   \<and> readFileSync (projFs (tagA @ tagA) (js ''x=1;'')) (js ''/proj/dist/a.js'') = Some (js ''x=1;'')
   \<and> transformContent defaultOptions (js ''x=1;'') (js ''a.js'') = Some (js ''x=1;'')
   \<and> minifyIfEnabled defaultOptions None (js ''a.js'') (js ''x=1;'') = (js ''x=1;'', [])
   \<and> of_char CHR ''$'' \<notin> set (js ''x=1;'')
   \<and> indexOf (htmlContent (startState (tagA @ tagA))) tagA = Some 0
   \<and> htmlContent (inlineScript projHost defaultOptions None (projFs (tagA @ tagA) (js ''x=1;''))
         indexHtml distPath tagA (js ''a.js'') (startState (tagA @ tagA)))
     = js ''<script>\<newline>x=1;</script>'' @ tagA"
proof -
  have r: "resolveSource projHost defaultOptions (projFs (tagA @ tagA) (js ''x=1;'')) indexHtml distPath (js ''a.js'')
     = (js ''/proj/dist/a.js'', True, [js ''/proj/dist/a.js''])"
    by (simp add: resolveSource_def projHost_def posixHost_def posixResolve_def posixDirname_def
        normalizeAbs_def existsSync_def projFs_def fsOf_def indexHtml_def distPath_def Let_def)
  have f: "readFileSync (projFs (tagA @ tagA) (js ''x=1;'')) (js ''/proj/dist/a.js'') = Some (js ''x=1;'')"
    by (simp add: readFileSync_def projFs_def fsOf_def)
  have t: "transformContent defaultOptions (js ''x=1;'') (js ''a.js'') = Some (js ''x=1;'')"
    by (simp add: defaultOptions_def)
  have m: "minifyIfEnabled defaultOptions None (js ''a.js'') (js ''x=1;'') = (js ''x=1;'', [])"
    by (simp add: minifyIfEnabled_def defaultOptions_def)
  have d: "of_char CHR ''$'' \<notin> set (js ''x=1;'')" by simp
  have i: "indexOf (htmlContent (startState (tagA @ tagA))) tagA = Some 0"
    by (simp add: startState_def indexOf_tagA_first)
  from inline_element_exact[OF r f t m d i]
  have "htmlContent (inlineScript projHost defaultOptions None (projFs (tagA @ tagA) (js ''x=1;''))
         indexHtml distPath tagA (js ''a.js'') (startState (tagA @ tagA)))
     = js ''<script>\<newline>x=1;</script>'' @ tagA"
    by (simp add: startState_def length_tagA)
  with r f t m d i show ?thesis by blast
qed

lemma dollar_expands:
  \<open>replace (tagA @ tagA) tagA (inlineScriptTag (js ''a$$b'')) = inlineScriptTag (js ''a$b'') @ tagA\<close>
  using indexOf_tagA_first[of tagA]
  by (simp add: replace_def inlineScriptTag_def length_tagA)

end
